theory Spec2Isabelle
  imports Main "HOL-Library.Word"
begin

section \<open>Interrupt-driven transfer engines of the I2C and SPI drivers\<close>

text \<open>
  The two drivers \<^verbatim>\<open>myI2C.c\<close> and \<^verbatim>\<open>mySPI.c\<close> keep their state in global variables and
  talk to the peripheral through memory-mapped registers. Each driver is modelled by a
  record that holds its global variables and the registers its functions read or write;
  every C function becomes a function on that record, returning the new record (and the
  boolean result where the C function has one).

  All variables declared \<^verbatim>\<open>uint16_t\<close> are 16-bit words. The status flags are plain
  \<^verbatim>\<open>uint16_t\<close> variables compared with \<^verbatim>\<open>#define\<close> constants, and are modelled so.
  The software buffers are C arrays; they are lists here, of the declared array length in
  every well-formed state.
\<close>

type_synonym uint16_t = "16 word"

section \<open>SPI driver (mySPI.h, mySPI.c)\<close>

subsection \<open>Constants of mySPI.h\<close>

definition SPI_SIZE_SOFTWARE_BUFFER :: uint16_t where
  "SPI_SIZE_SOFTWARE_BUFFER = 50"

definition SPI_SIZE_HARDWARE_FIFO :: uint16_t where
  "SPI_SIZE_HARDWARE_FIFO = 16"

definition SPI_STATUS_IDLE :: uint16_t where
  "SPI_STATUS_IDLE = 0"

definition SPI_STATUS_IN_PROGRESS :: uint16_t where
  "SPI_STATUS_IN_PROGRESS = 1"

definition SPI_STATUS_FINISHED :: uint16_t where
  "SPI_STATUS_FINISHED = 2"

definition SPI_SLAVE_1 :: uint16_t where
  "SPI_SLAVE_1 = 0"

definition SPI_SLAVE_2 :: uint16_t where
  "SPI_SLAVE_2 = 1"

lemmas spi_consts =
  SPI_SIZE_SOFTWARE_BUFFER_def SPI_SIZE_HARDWARE_FIFO_def SPI_STATUS_IDLE_def
  SPI_STATUS_IN_PROGRESS_def SPI_STATUS_FINISHED_def SPI_SLAVE_1_def SPI_SLAVE_2_def

subsection \<open>State\<close>

text \<open>
  The first six fields are the global variables of \<^verbatim>\<open>mySPI.c\<close>. The others are the
  hardware the transfer functions touch:
  \<^item> \<open>SPITXFIFO\<close>, \<open>SPIRXFIFO\<close>: the contents of the transmit and the receive FIFO, oldest
    word first. The level fields \<^verbatim>\<open>SPIFFTX.TXFFST\<close> and \<^verbatim>\<open>SPIFFRX.RXFFST\<close> are the
    lengths of these lists; a write to \<^verbatim>\<open>SPITXBUF\<close> appends to the first, a read of
    \<^verbatim>\<open>SPIRXBUF\<close> takes the head of the second.
  \<^item> \<open>SPIFFRX_RXFFIL\<close>, \<open>SPIFFRX_RXFFIENA\<close>, \<open>SPIFFRX_RXFFINT\<close>: receive threshold, receive
    interrupt enable, and the receive interrupt flag (cleared through \<^verbatim>\<open>RXFFINTCLR\<close>).
  \<^item> \<open>GPIO58\<close>, \<open>GPIO59\<close>: the levels of the two slave-select pins (\<open>True\<close> is high, the
    slave is deselected; \<^verbatim>\<open>GPBSET\<close> drives high, \<^verbatim>\<open>GPBCLEAR\<close> drives low).
  \<^item> \<open>PIEACK_ACK6\<close>: the pending acknowledge of interrupt group 6, cleared by the handler.

  The threshold \<^verbatim>\<open>RXFFIL\<close> is a 5-bit field of the device. The driver first assigns it
  the byte count and, when that is above 16, overwrites it with 16 in the next statement:
  the value the field is left with is at most 16 on every path, so it is the same with
  and without the truncation of the first assignment, and the model stores the values
  as assigned.

  Pin multiplexing, clock gating, character length, bit rate and the interrupt vector,
  which \<^verbatim>\<open>SpiInitA\<close> programs and no other function of the driver reads or writes, are
  not part of the state.
\<close>

record spi_state =
  spiBufferTxA :: "uint16_t list"
  spiBufferRxA :: "uint16_t list"
  spiBufferIndexTxA :: uint16_t
  spiBufferIndexRxA :: uint16_t
  spiBytesToTransferA :: uint16_t
  spiStatusFlagA :: uint16_t
  SPITXFIFO :: "uint16_t list"
  SPIRXFIFO :: "uint16_t list"
  SPIFFRX_RXFFIL :: uint16_t
  SPIFFRX_RXFFIENA :: bool
  SPIFFRX_RXFFINT :: bool
  GPIO58 :: bool
  GPIO59 :: bool
  PIEACK_ACK6 :: bool

subsection \<open>Buffer initialisation and SpiInitA\<close>

text \<open>The \<^verbatim>\<open>for\<close> loops of \<^verbatim>\<open>SpiInitBufferTxA\<close> and \<^verbatim>\<open>SpiInitBufferRxA\<close>: element
  \<open>i\<close> is set to 0 for \<open>i = 0, ..., 49\<close>.\<close>

definition SpiInitBufferTxA :: "spi_state \<Rightarrow> spi_state" where
  "SpiInitBufferTxA s =
     s\<lparr>spiBufferTxA :=
         fold (\<lambda>i b. b[i := 0]) [0 ..< unat SPI_SIZE_SOFTWARE_BUFFER] (spiBufferTxA s)\<rparr>"

definition SpiInitBufferRxA :: "spi_state \<Rightarrow> spi_state" where
  "SpiInitBufferRxA s =
     s\<lparr>spiBufferRxA :=
         fold (\<lambda>i b. b[i := 0]) [0 ..< unat SPI_SIZE_SOFTWARE_BUFFER] (spiBufferRxA s)\<rparr>"

text \<open>
  \<^verbatim>\<open>SpiInitA\<close>: both slave-select pins are driven high, the transmit FIFO is held in
  reset and released (which empties it), the receive interrupt is switched off and its
  flag cleared; then the control variables are initialised. The parameter \<open>clock\<close> only
  enters the bit-rate register (as the divisor of \<^verbatim>\<open>50000000 / clock\<close>), which is not
  part of the state.
\<close>

definition SpiInitA :: "32 word \<Rightarrow> spi_state \<Rightarrow> spi_state" where
  "SpiInitA clock s =
     (let s1 = s\<lparr>GPIO58 := True, GPIO59 := True, SPITXFIFO := [],
                  SPIFFRX_RXFFIENA := False, SPIFFRX_RXFFINT := False\<rparr>;
          s2 = SpiInitBufferRxA s1;
          s3 = SpiInitBufferTxA s2
      in s3\<lparr>spiBufferIndexTxA := 0, spiBufferIndexRxA := 0, spiBytesToTransferA := 0,
             spiStatusFlagA := SPI_STATUS_IDLE\<rparr>)"

subsection \<open>Status query and reset to idle\<close>

definition SpiGetStatusA :: "spi_state \<Rightarrow> uint16_t" where
  "SpiGetStatusA s = spiStatusFlagA s"

definition SpiSetStatusIdleA :: "spi_state \<Rightarrow> bool \<times> spi_state" where
  "SpiSetStatusIdleA s =
     (if spiStatusFlagA s = SPI_STATUS_FINISHED
      then (True, s\<lparr>spiStatusFlagA := SPI_STATUS_IDLE\<rparr>)
      else (False, s))"

subsection \<open>The two FIFO loops\<close>

text \<open>
  The loop that fills the transmit FIFO is written out twice in the source, with the same
  text, in \<^verbatim>\<open>SpiSendDataA\<close> and in \<^verbatim>\<open>SpiISRA\<close>:
  \<^verbatim>\<open>while (spiBufferIndexTxA < spiBytesToTransferA && TXFFST < SPI_SIZE_HARDWARE_FIFO)
  { SPITXBUF = (spiBufferTxA[spiBufferIndexTxA] << 8); spiBufferIndexTxA++; }\<close>
  Each pass appends one word to the transmit FIFO, so the room left in the FIFO decreases.
  The handler runs to completion between two hardware events: the FIFO levels do not
  change during a loop except through the loop itself.
\<close>

function spi_tx_while :: "spi_state \<Rightarrow> spi_state" where
  "spi_tx_while s =
     (if spiBufferIndexTxA s < spiBytesToTransferA s
         \<and> length (SPITXFIFO s) < unat SPI_SIZE_HARDWARE_FIFO
      then spi_tx_while
             (s\<lparr>SPITXFIFO :=
                   SPITXFIFO s @ [push_bit 8 (spiBufferTxA s ! unat (spiBufferIndexTxA s))],
                spiBufferIndexTxA := spiBufferIndexTxA s + 1\<rparr>)
      else s)"
  by pat_completeness auto
termination
  by (relation "measure (\<lambda>s. unat SPI_SIZE_HARDWARE_FIFO - length (SPITXFIFO s))") auto

text \<open>
  The receive loop of \<^verbatim>\<open>SpiISRA\<close>:
  \<^verbatim>\<open>while (spiBufferIndexRxA < spiBytesToTransferA && RXFFST > 0)
  { spiBufferRxA[spiBufferIndexRxA] = SPIRXBUF; spiBufferIndexRxA++; }\<close>
  Each pass takes the oldest word out of the receive FIFO. The array write is in range
  whenever \<open>spiBytesToTransferA\<close> is at most 50, which holds in every state the driver
  reaches (lemma \<open>spi_exec_inv\<close>); outside that range the C code writes past the array and
  the list update of the model leaves the buffer as it is.
\<close>

function spi_rx_while :: "spi_state \<Rightarrow> spi_state" where
  "spi_rx_while s =
     (if spiBufferIndexRxA s < spiBytesToTransferA s \<and> 0 < length (SPIRXFIFO s)
      then spi_rx_while
             (s\<lparr>spiBufferRxA :=
                   (spiBufferRxA s)[unat (spiBufferIndexRxA s) := hd (SPIRXFIFO s)],
                SPIRXFIFO := tl (SPIRXFIFO s),
                spiBufferIndexRxA := spiBufferIndexRxA s + 1\<rparr>)
      else s)"
  by pat_completeness auto
termination
  by (relation "measure (\<lambda>s. length (SPIRXFIFO s))") auto

declare spi_tx_while.simps [simp del]
declare spi_rx_while.simps [simp del]

text \<open>The number of passes of each loop, from the state on entry: the receive loop runs
  until the byte count is reached or the receive FIFO is empty, the transmit loop until
  the byte count is reached or the transmit FIFO is full (lemmas \<open>spi_rx_while_main\<close>,
  \<open>spi_tx_while_main\<close>).\<close>

definition spi_rx_count :: "spi_state \<Rightarrow> nat" where
  "spi_rx_count s =
     min (unat (spiBytesToTransferA s) - unat (spiBufferIndexRxA s)) (length (SPIRXFIFO s))"

definition spi_tx_count :: "spi_state \<Rightarrow> nat" where
  "spi_tx_count s =
     min (unat (spiBytesToTransferA s) - unat (spiBufferIndexTxA s))
         (unat SPI_SIZE_HARDWARE_FIFO - length (SPITXFIFO s))"

subsection \<open>SpiSendDataA\<close>

text \<open>
  The result variable \<^verbatim>\<open>operationPerformed\<close> is initialised to \<^verbatim>\<open>false\<close> and returned at
  the end; no statement of the function assigns it in between.
\<close>

definition SpiSendDataA :: "uint16_t \<Rightarrow> uint16_t \<Rightarrow> spi_state \<Rightarrow> bool \<times> spi_state" where
  "SpiSendDataA slave numberOfBytes s =
     (let operationPerformed = False in
      if spiStatusFlagA s \<noteq> SPI_STATUS_IN_PROGRESS
         \<and> numberOfBytes \<le> SPI_SIZE_SOFTWARE_BUFFER
         \<and> numberOfBytes \<noteq> 0
      then
        let s1 = (if slave = SPI_SLAVE_1 then s\<lparr>GPIO59 := True, GPIO58 := False\<rparr>
                  else if slave = SPI_SLAVE_2 then s\<lparr>GPIO58 := True, GPIO59 := False\<rparr>
                  else s);
            s2 = s1\<lparr>spiStatusFlagA := SPI_STATUS_IN_PROGRESS\<rparr>;
            s3 = s2\<lparr>spiBytesToTransferA := numberOfBytes\<rparr>;
            s4 = s3\<lparr>spiBufferIndexTxA := 0, spiBufferIndexRxA := 0\<rparr>;
            s5 = spi_tx_while s4;
            s6 = s5\<lparr>SPIFFRX_RXFFIL := spiBytesToTransferA s5\<rparr>;
            s7 = (if spiBytesToTransferA s6 > SPI_SIZE_HARDWARE_FIFO
                  then s6\<lparr>SPIFFRX_RXFFIL := SPI_SIZE_HARDWARE_FIFO\<rparr> else s6)
        in (operationPerformed, s7\<lparr>SPIFFRX_RXFFIENA := True\<rparr>)
      else (operationPerformed, s))"

subsection \<open>SpiISRA\<close>

definition SpiISRA :: "spi_state \<Rightarrow> spi_state" where
  "SpiISRA s =
     (let s1 = spi_rx_while s;
          s2 = (if spiBufferIndexRxA s1 = spiBytesToTransferA s1
                then s1\<lparr>SPIFFRX_RXFFIENA := False, GPIO58 := True, GPIO59 := True,
                        spiStatusFlagA := SPI_STATUS_FINISHED\<rparr>
                else
                  let t1 = spi_tx_while s1;
                      t2 = t1\<lparr>SPIFFRX_RXFFIL :=
                                 spiBytesToTransferA t1 - spiBufferIndexRxA t1\<rparr>
                  in if spiBytesToTransferA t2 - spiBufferIndexRxA t2 > SPI_SIZE_HARDWARE_FIFO
                     then t2\<lparr>SPIFFRX_RXFFIL := SPI_SIZE_HARDWARE_FIFO\<rparr> else t2)
      in s2\<lparr>SPIFFRX_RXFFINT := False, PIEACK_ACK6 := False\<rparr>)"

subsection \<open>The hardware between two handler invocations, and runs\<close>

text \<open>
  Between the start call and the first interrupt, and between two interrupts, the SPI
  hardware shifts words out of the transmit FIFO and received words into the receive
  FIFO, and it raises the interrupt flag. The driver source does not say how; an event is
  therefore any pair of new contents for the receive and the transmit FIFO. The variables
  of the driver and the registers only the driver writes are left alone by an event.
\<close>

type_synonym spi_event = "uint16_t list \<times> uint16_t list"

definition spi_hw :: "spi_event \<Rightarrow> spi_state \<Rightarrow> spi_state" where
  "spi_hw e s =
     s\<lparr>SPIRXFIFO := fst e, SPITXFIFO := snd e, SPIFFRX_RXFFINT := True, PIEACK_ACK6 := True\<rparr>"

text \<open>A run: after each event the handler is invoked once.\<close>

fun spi_run :: "spi_state \<Rightarrow> spi_event list \<Rightarrow> spi_state" where
  "spi_run s [] = s"
| "spi_run s (e # es) = spi_run (SpiISRA (spi_hw e s)) es"

text \<open>The words that one handler invocation, entered in state \<open>s\<close>, takes out of the
  receive FIFO (lemma \<open>SpiISRA_rxfifo_split\<close>: the FIFO on entry is these words followed
  by the FIFO on exit), and the words taken during a whole run, in the order taken.\<close>

definition spi_rx_taken :: "spi_state \<Rightarrow> uint16_t list" where
  "spi_rx_taken s =
     take (length (SPIRXFIFO s) - length (SPIRXFIFO (SpiISRA s))) (SPIRXFIFO s)"

fun spi_moved :: "spi_state \<Rightarrow> spi_event list \<Rightarrow> uint16_t list" where
  "spi_moved s [] = []"
| "spi_moved s (e # es) =
     spi_rx_taken (spi_hw e s) @ spi_moved (SpiISRA (spi_hw e s)) es"

text \<open>A run in which every invocation is caused by the receive-FIFO interrupt: on entry
  the level of the receive FIFO has reached the threshold programmed before.\<close>

fun spi_triggered :: "spi_state \<Rightarrow> spi_event list \<Rightarrow> bool" where
  "spi_triggered s [] = True"
| "spi_triggered s (e # es) =
     (unat (SPIFFRX_RXFFIL s) \<le> length (fst e) \<and> spi_triggered (SpiISRA (spi_hw e s)) es)"

text \<open>Call sequences of the driver's functions, interleaved with hardware events.\<close>

datatype spi_call =
    CallSpiInitA "32 word"
  | CallSpiSendDataA uint16_t uint16_t
  | CallSpiISRA
  | CallSpiSetStatusIdleA
  | HardwareEvent spi_event

fun spi_exec1 :: "spi_call \<Rightarrow> spi_state \<Rightarrow> spi_state" where
  "spi_exec1 (CallSpiInitA clock) s = SpiInitA clock s"
| "spi_exec1 (CallSpiSendDataA slave n) s = snd (SpiSendDataA slave n s)"
| "spi_exec1 CallSpiISRA s = SpiISRA s"
| "spi_exec1 CallSpiSetStatusIdleA s = snd (SpiSetStatusIdleA s)"
| "spi_exec1 (HardwareEvent e) s = spi_hw e s"

definition spi_exec :: "spi_call list \<Rightarrow> spi_state \<Rightarrow> spi_state" where
  "spi_exec cs s = fold spi_exec1 cs s"

text \<open>Well-formed states: the two buffers have the declared array length
  (\<open>spi_arrays_ok\<close>); in addition the byte count fits the buffers and neither cursor is
  beyond it (\<open>spi_inv\<close>).\<close>

definition spi_arrays_ok :: "spi_state \<Rightarrow> bool" where
  "spi_arrays_ok s \<longleftrightarrow>
     length (spiBufferTxA s) = unat SPI_SIZE_SOFTWARE_BUFFER \<and>
     length (spiBufferRxA s) = unat SPI_SIZE_SOFTWARE_BUFFER"

definition spi_inv :: "spi_state \<Rightarrow> bool" where
  "spi_inv s \<longleftrightarrow>
     spi_arrays_ok s \<and>
     spiBytesToTransferA s \<le> SPI_SIZE_SOFTWARE_BUFFER \<and>
     spiBufferIndexTxA s \<le> spiBytesToTransferA s \<and>
     spiBufferIndexRxA s \<le> spiBytesToTransferA s"

text \<open>The guard of \<^verbatim>\<open>SpiSendDataA\<close>: the call is accepted and starts a transfer.\<close>

definition spi_start_ok :: "uint16_t \<Rightarrow> spi_state \<Rightarrow> bool" where
  "spi_start_ok n s \<longleftrightarrow>
     spiStatusFlagA s \<noteq> SPI_STATUS_IN_PROGRESS \<and> n \<le> SPI_SIZE_SOFTWARE_BUFFER \<and> n \<noteq> 0"

text \<open>The phase of a transfer: either all bytes are in and the state is finished, or
  bytes are outstanding, the state is in progress and the threshold is the smaller of the
  outstanding count and the FIFO depth.\<close>

definition spi_phase :: "spi_state \<Rightarrow> bool" where
  "spi_phase s \<longleftrightarrow>
     (if spiBufferIndexRxA s = spiBytesToTransferA s
      then spiStatusFlagA s = SPI_STATUS_FINISHED
      else spiStatusFlagA s = SPI_STATUS_IN_PROGRESS \<and>
           unat (SPIFFRX_RXFFIL s) =
             min (unat (spiBytesToTransferA s) - unat (spiBufferIndexRxA s))
                 (unat SPI_SIZE_HARDWARE_FIFO))"

text \<open>The state at power-on: zero-initialised variables, empty FIFOs.\<close>

definition spi_power_on :: spi_state where
  "spi_power_on =
     \<lparr>spiBufferTxA = replicate 50 0, spiBufferRxA = replicate 50 0,
      spiBufferIndexTxA = 0, spiBufferIndexRxA = 0, spiBytesToTransferA = 0,
      spiStatusFlagA = 0, SPITXFIFO = [], SPIRXFIFO = [], SPIFFRX_RXFFIL = 0,
      SPIFFRX_RXFFIENA = False, SPIFFRX_RXFFINT = False, GPIO58 = False, GPIO59 = False,
      PIEACK_ACK6 = False\<rparr>"

text \<open>An example: the initialised driver with 1, ..., 50 in the transmit buffer, and two
  hardware events that deliver 16 and then 4 received words (transmit FIFO drained).\<close>

definition spi_example :: spi_state where
  "spi_example = (SpiInitA 1000000 spi_power_on)\<lparr>spiBufferTxA := map of_nat [1 ..< 51]\<rparr>"

definition spi_example_events :: "spi_event list" where
  "spi_example_events = [(map of_nat [100 ..< 116], []), (map of_nat [116 ..< 120], [])]"

section \<open>I2C driver (myI2C.h, myI2C.c)\<close>

subsection \<open>Constants of myI2C.h\<close>

definition I2C_SIZE_HARDWARE_FIFO :: uint16_t where
  "I2C_SIZE_HARDWARE_FIFO = 16"

definition I2C_STATUS_IDLE :: uint16_t where
  "I2C_STATUS_IDLE = 0"

definition I2C_STATUS_IN_PROGRESS :: uint16_t where
  "I2C_STATUS_IN_PROGRESS = 1"

definition I2C_STATUS_FINISHED :: uint16_t where
  "I2C_STATUS_FINISHED = 2"

definition I2C_STATUS_ERROR :: uint16_t where
  "I2C_STATUS_ERROR = 3"

lemmas i2c_consts =
  I2C_SIZE_HARDWARE_FIFO_def I2C_STATUS_IDLE_def I2C_STATUS_IN_PROGRESS_def
  I2C_STATUS_FINISHED_def I2C_STATUS_ERROR_def

subsection \<open>State\<close>

text \<open>
  The first four fields are the global variables of \<^verbatim>\<open>myI2C.c\<close>. The register fields
  carry the names of the source: \<open>I2CMDR_STP\<close> is \<^verbatim>\<open>I2caRegs.I2CMDR.bit.STP\<close>, the
  stop-condition request that the hardware clears once the stop condition has been sent;
  \<open>I2CSTR_BB\<close> is the bus-busy bit; \<open>I2CSTR_SCD\<close>, \<open>I2CSTR_NACK\<close> and \<open>I2CSTR_ARDY\<close> are
  the status flags the handler tests; \<open>I2CIER_ARDY\<close> enables the ARDY interrupt source.
  \<open>I2CTXFIFO\<close> and \<open>I2CRXFIFO\<close> are the contents of the two FIFOs, oldest word first: in
  FIFO mode a write to \<^verbatim>\<open>I2CDXR\<close> appends to the first and a read of \<^verbatim>\<open>I2CDRR\<close> takes
  the head of the second.

  The data registers \<^verbatim>\<open>I2CDXR\<close>, \<^verbatim>\<open>I2CDRR\<close> and the address field are narrower
  than 16 bits on the device; their declarations are not part of the driver source, the
  model keeps the 16-bit values assigned, and no theorem below depends on the contents
  of the I2C FIFOs or on the address.

  The handler writes 1 to \<^verbatim>\<open>I2CSTR.bit.SCD\<close> and to \<^verbatim>\<open>I2CSTR.bit.NACK\<close>; the source
  comments say what these writes do ("STOP-Flag loeschen", "NACK-Flag loeschen"): they
  clear the flag, and the model clears it.
\<close>

record i2c_state =
  i2cBufferWriteA :: "uint16_t list"
  i2cBufferReadA :: "uint16_t list"
  i2cBytesToReadAfterRSA :: uint16_t
  i2cStatusFlagA :: uint16_t
  I2CMDR_MST :: bool
  I2CMDR_TRX :: bool
  I2CMDR_STT :: bool
  I2CMDR_STP :: bool
  I2CSTR_BB :: bool
  I2CSTR_SCD :: bool
  I2CSTR_NACK :: bool
  I2CSTR_ARDY :: bool
  I2CIER_ARDY :: bool
  I2CSAR_SAR :: uint16_t
  I2CCNT :: uint16_t
  I2CTXFIFO :: "uint16_t list"
  I2CRXFIFO :: "uint16_t list"
  PIEACK_ACK8 :: bool

subsection \<open>Status query and reset to idle\<close>

definition I2cGetStatusA :: "i2c_state \<Rightarrow> uint16_t" where
  "I2cGetStatusA s =
     (let status = i2cStatusFlagA s
      in if I2CMDR_STP s then I2C_STATUS_IN_PROGRESS else status)"

definition I2cSetStatusIdleA :: "i2c_state \<Rightarrow> bool \<times> i2c_state" where
  "I2cSetStatusIdleA s =
     (if i2cStatusFlagA s \<noteq> I2C_STATUS_IN_PROGRESS
      then (True, s\<lparr>i2cStatusFlagA := I2C_STATUS_IDLE\<rparr>)
      else (False, s))"

subsection \<open>Start functions\<close>

text \<open>The loop \<^verbatim>\<open>for (i = 0; i < n; i++) I2CDXR.bit.DATA = i2cBufferWriteA[i];\<close> of
  \<^verbatim>\<open>I2cWriteA\<close> and \<^verbatim>\<open>I2cWriteReadA\<close>. It runs only with \<open>n \<le> 16\<close>, inside the array.\<close>

definition i2c_tx_step :: "nat \<Rightarrow> i2c_state \<Rightarrow> i2c_state" where
  "i2c_tx_step i st = st\<lparr>I2CTXFIFO := I2CTXFIFO st @ [i2cBufferWriteA st ! i]\<rparr>"

definition i2c_tx_for :: "uint16_t \<Rightarrow> i2c_state \<Rightarrow> i2c_state" where
  "i2c_tx_for n s = fold i2c_tx_step [0 ..< unat n] s"

definition I2cWriteA :: "uint16_t \<Rightarrow> uint16_t \<Rightarrow> i2c_state \<Rightarrow> bool \<times> i2c_state" where
  "I2cWriteA slaveAddress numberOfBytes s =
     (if i2cStatusFlagA s \<noteq> I2C_STATUS_IN_PROGRESS
         \<and> \<not> I2CSTR_BB s
         \<and> \<not> I2CMDR_STP s
         \<and> numberOfBytes \<le> I2C_SIZE_HARDWARE_FIFO
         \<and> numberOfBytes \<noteq> 0
      then
        let s1 = s\<lparr>i2cStatusFlagA := I2C_STATUS_IN_PROGRESS\<rparr>;
            s2 = s1\<lparr>I2CMDR_MST := True, I2CMDR_TRX := True\<rparr>;
            s3 = s2\<lparr>I2CSAR_SAR := slaveAddress\<rparr>;
            s4 = i2c_tx_for numberOfBytes s3;
            s5 = s4\<lparr>I2CCNT := numberOfBytes\<rparr>;
            s6 = s5\<lparr>I2CMDR_STT := True\<rparr>
        in (True, s6\<lparr>I2CMDR_STP := True\<rparr>)
      else (False, s))"

definition I2cReadA :: "uint16_t \<Rightarrow> uint16_t \<Rightarrow> i2c_state \<Rightarrow> bool \<times> i2c_state" where
  "I2cReadA slaveAddress numberOfBytes s =
     (if i2cStatusFlagA s \<noteq> I2C_STATUS_IN_PROGRESS
         \<and> \<not> I2CSTR_BB s
         \<and> \<not> I2CMDR_STP s
         \<and> numberOfBytes \<le> I2C_SIZE_HARDWARE_FIFO
         \<and> numberOfBytes \<noteq> 0
      then
        let s1 = s\<lparr>i2cStatusFlagA := I2C_STATUS_IN_PROGRESS\<rparr>;
            s2 = s1\<lparr>I2CMDR_MST := True, I2CMDR_TRX := False\<rparr>;
            s3 = s2\<lparr>I2CSAR_SAR := slaveAddress\<rparr>;
            s4 = s3\<lparr>I2CCNT := numberOfBytes\<rparr>;
            s5 = s4\<lparr>I2CMDR_STT := True\<rparr>
        in (True, s5\<lparr>I2CMDR_STP := True\<rparr>)
      else (False, s))"

definition I2cWriteReadA ::
  "uint16_t \<Rightarrow> uint16_t \<Rightarrow> uint16_t \<Rightarrow> i2c_state \<Rightarrow> bool \<times> i2c_state" where
  "I2cWriteReadA slaveAddress numberOfBytesWrite numberOfBytesRead s =
     (if i2cStatusFlagA s \<noteq> I2C_STATUS_IN_PROGRESS
         \<and> \<not> I2CSTR_BB s
         \<and> \<not> I2CMDR_STP s
         \<and> numberOfBytesWrite \<le> I2C_SIZE_HARDWARE_FIFO
         \<and> numberOfBytesRead \<le> I2C_SIZE_HARDWARE_FIFO
         \<and> numberOfBytesWrite \<noteq> 0
         \<and> numberOfBytesRead \<noteq> 0
      then
        let s1 = s\<lparr>i2cStatusFlagA := I2C_STATUS_IN_PROGRESS\<rparr>;
            s2 = s1\<lparr>I2CMDR_MST := True, I2CMDR_TRX := True\<rparr>;
            s3 = s2\<lparr>I2CSAR_SAR := slaveAddress\<rparr>;
            s4 = i2c_tx_for numberOfBytesWrite s3;
            s5 = s4\<lparr>I2CCNT := numberOfBytesWrite\<rparr>;
            s6 = s5\<lparr>i2cBytesToReadAfterRSA := numberOfBytesRead\<rparr>;
            s7 = s6\<lparr>I2CIER_ARDY := True\<rparr>
        in (True, s7\<lparr>I2CMDR_STT := True\<rparr>)
      else (False, s))"

subsection \<open>I2cISRA\<close>

text \<open>
  A read of \<^verbatim>\<open>I2CDRR.bit.DATA\<close> takes the oldest word out of the receive FIFO. The
  handler reads without testing the FIFO level; what the register returns when the FIFO
  is empty is not determined by the source, and the model returns 0 there. No theorem
  below depends on the words read.
\<close>

definition I2CDRR_read :: "i2c_state \<Rightarrow> uint16_t \<times> i2c_state" where
  "I2CDRR_read s =
     (case I2CRXFIFO s of [] \<Rightarrow> (0, s) | w # ws \<Rightarrow> (w, s\<lparr>I2CRXFIFO := ws\<rparr>))"

text \<open>The loop \<^verbatim>\<open>for (i = 0; i < I2CCNT; i++) i2cBufferReadA[i] = I2CDRR.bit.DATA;\<close>.
  The loop does not write \<^verbatim>\<open>I2CCNT\<close>, so its bound is the value on entry. The array
  write is in range when \<open>I2CCNT \<le> 16\<close>; every function of the driver writes a value of at
  most 16 to \<^verbatim>\<open>I2CCNT\<close> (lemma \<open>i2c_inv_preserved\<close>).\<close>

definition i2c_rx_step :: "nat \<Rightarrow> i2c_state \<Rightarrow> i2c_state" where
  "i2c_rx_step i st =
     (let (w, st') = I2CDRR_read st
      in st'\<lparr>i2cBufferReadA := (i2cBufferReadA st')[i := w]\<rparr>)"

definition i2c_rx_for :: "i2c_state \<Rightarrow> i2c_state" where
  "i2c_rx_for s = fold i2c_rx_step [0 ..< unat (I2CCNT s)] s"

text \<open>The first \<^verbatim>\<open>if\<close> / \<^verbatim>\<open>else if\<close> of the handler: the stop-condition branch, or else
  the negative-acknowledgment branch.\<close>

definition I2cISRA_event :: "i2c_state \<Rightarrow> i2c_state" where
  "I2cISRA_event s =
     (if I2CSTR_SCD s then
        let s1 = s\<lparr>I2CSTR_SCD := False\<rparr>;
            s2 = (if \<not> I2CMDR_TRX s1 then i2c_rx_for s1 else s1)
        in if i2cStatusFlagA s2 = I2C_STATUS_IN_PROGRESS
           then s2\<lparr>i2cStatusFlagA := I2C_STATUS_FINISHED\<rparr> else s2
      else if I2CSTR_NACK s then
        s\<lparr>I2CSTR_NACK := False, I2CMDR_STP := True, i2cStatusFlagA := I2C_STATUS_ERROR\<rparr>
      else s)"

text \<open>The second \<^verbatim>\<open>if\<close> of the handler, the pivot of a write-then-read transfer, tested
  on the registers as the first statement left them.\<close>

definition I2cISRA_pivot :: "i2c_state \<Rightarrow> i2c_state" where
  "I2cISRA_pivot s =
     (if I2CSTR_ARDY s \<and> \<not> I2CSTR_NACK s
      then s\<lparr>I2CIER_ARDY := False, I2CMDR_MST := True, I2CMDR_TRX := False,
             I2CCNT := i2cBytesToReadAfterRSA s, I2CMDR_STT := True, I2CMDR_STP := True\<rparr>
      else s)"

definition I2cISRA :: "i2c_state \<Rightarrow> i2c_state" where
  "I2cISRA s = (I2cISRA_pivot (I2cISRA_event s))\<lparr>PIEACK_ACK8 := False\<rparr>"

text \<open>Well-formed states: the two buffers have the declared array length and the two
  byte counts are within it.\<close>

definition i2c_inv :: "i2c_state \<Rightarrow> bool" where
  "i2c_inv s \<longleftrightarrow>
     length (i2cBufferWriteA s) = unat I2C_SIZE_HARDWARE_FIFO \<and>
     length (i2cBufferReadA s) = unat I2C_SIZE_HARDWARE_FIFO \<and>
     I2CCNT s \<le> I2C_SIZE_HARDWARE_FIFO \<and>
     i2cBytesToReadAfterRSA s \<le> I2C_SIZE_HARDWARE_FIFO"

text \<open>The state at power-on: zero-initialised variables, cleared registers, empty FIFOs.\<close>

definition i2c_power_on :: i2c_state where
  "i2c_power_on =
     \<lparr>i2cBufferWriteA = replicate 16 0, i2cBufferReadA = replicate 16 0,
      i2cBytesToReadAfterRSA = 0, i2cStatusFlagA = 0,
      I2CMDR_MST = False, I2CMDR_TRX = False, I2CMDR_STT = False, I2CMDR_STP = False,
      I2CSTR_BB = False, I2CSTR_SCD = False, I2CSTR_NACK = False, I2CSTR_ARDY = False,
      I2CIER_ARDY = False, I2CSAR_SAR = 0, I2CCNT = 0, I2CTXFIFO = [], I2CRXFIFO = [],
      PIEACK_ACK8 = False\<rparr>"

section \<open>Properties\<close>

subsection \<open>Start functions: result\<close>

text \<open>The three I2C start functions return \<open>True\<close> exactly when their guard holds;
  \<^verbatim>\<open>SpiSendDataA\<close> returns \<open>False\<close> on every input.\<close>

lemma I2c_start_result:
  "fst (I2cWriteA a n s) \<longleftrightarrow>
     (i2cStatusFlagA s \<noteq> I2C_STATUS_IN_PROGRESS \<and> \<not> I2CSTR_BB s \<and> \<not> I2CMDR_STP s
      \<and> n \<le> I2C_SIZE_HARDWARE_FIFO \<and> n \<noteq> 0)"
  "fst (I2cReadA a n s) \<longleftrightarrow>
     (i2cStatusFlagA s \<noteq> I2C_STATUS_IN_PROGRESS \<and> \<not> I2CSTR_BB s \<and> \<not> I2CMDR_STP s
      \<and> n \<le> I2C_SIZE_HARDWARE_FIFO \<and> n \<noteq> 0)"
  "fst (I2cWriteReadA a nw nr s) \<longleftrightarrow>
     (i2cStatusFlagA s \<noteq> I2C_STATUS_IN_PROGRESS \<and> \<not> I2CSTR_BB s \<and> \<not> I2CMDR_STP s
      \<and> nw \<le> I2C_SIZE_HARDWARE_FIFO \<and> nr \<le> I2C_SIZE_HARDWARE_FIFO \<and> nw \<noteq> 0 \<and> nr \<noteq> 0)"
  by (simp_all add: I2cWriteA_def I2cReadA_def I2cWriteReadA_def Let_def)

lemma SpiSendDataA_result: "fst (SpiSendDataA slave n s) = False"
  by (simp add: SpiSendDataA_def Let_def)

text \<open>
  Claim C1. Every start operation returns \<open>True\<close> if and only if all its preconditions
  held and the transfer was armed. \<^verbatim>\<open>SpiSendDataA\<close> does not: called with the
  arguments of \<^verbatim>\<open>main.c\<close>, \<^verbatim>\<open>SpiSendDataA(SPI_SLAVE_1, 3)\<close>, on the initialised driver
  with 1, 2, 3 in the transmit buffer, its guard holds and it arms the transfer (state flag
  \<open>SPI_STATUS_IN_PROGRESS\<close>, three words in the transmit FIFO, threshold 3, receive
  interrupt enabled), and it returns \<open>False\<close>.
\<close>

theorem SpiSendDataA_armed_returns_false:
  "spiStatusFlagA ((SpiInitA 1000000 spi_power_on)\<lparr>spiBufferTxA := [1, 2, 3] @ replicate 47 0\<rparr>)
     \<noteq> SPI_STATUS_IN_PROGRESS \<and>
   (3 :: uint16_t) \<le> SPI_SIZE_SOFTWARE_BUFFER \<and> (3 :: uint16_t) \<noteq> 0 \<and>
   fst (SpiSendDataA SPI_SLAVE_1 3
          ((SpiInitA 1000000 spi_power_on)\<lparr>spiBufferTxA := [1, 2, 3] @ replicate 47 0\<rparr>))
     = False \<and>
   spiStatusFlagA (snd (SpiSendDataA SPI_SLAVE_1 3
          ((SpiInitA 1000000 spi_power_on)\<lparr>spiBufferTxA := [1, 2, 3] @ replicate 47 0\<rparr>)))
     = SPI_STATUS_IN_PROGRESS \<and>
   SPITXFIFO (snd (SpiSendDataA SPI_SLAVE_1 3
          ((SpiInitA 1000000 spi_power_on)\<lparr>spiBufferTxA := [1, 2, 3] @ replicate 47 0\<rparr>)))
     = [0x100, 0x200, 0x300] \<and>
   SPIFFRX_RXFFIL (snd (SpiSendDataA SPI_SLAVE_1 3
          ((SpiInitA 1000000 spi_power_on)\<lparr>spiBufferTxA := [1, 2, 3] @ replicate 47 0\<rparr>)))
     = 3 \<and>
   SPIFFRX_RXFFIENA (snd (SpiSendDataA SPI_SLAVE_1 3
          ((SpiInitA 1000000 spi_power_on)\<lparr>spiBufferTxA := [1, 2, 3] @ replicate 47 0\<rparr>)))"
  by code_simp

text \<open>
  Claim C5. A start call with a requested byte count equal to 0 or greater than the
  buffer capacity (16 for I2C, 50 for SPI) returns \<open>False\<close>, for the write, the read and
  the write-then-read variant; for the last one the write count and the read count each
  on its own (\<open>n\<close> is the bad count, \<open>m\<close> the other count, which is arbitrary).
\<close>

theorem start_count_out_of_range_rejected:
  assumes "n = 0 \<or> n > I2C_SIZE_HARDWARE_FIFO"
    and "k = 0 \<or> k > SPI_SIZE_SOFTWARE_BUFFER"
  shows "fst (I2cWriteA a n s) = False \<and> fst (I2cReadA a n s) = False \<and>
         fst (I2cWriteReadA a n m s) = False \<and> fst (I2cWriteReadA a m n s) = False \<and>
         fst (SpiSendDataA sl k t) = False"
  using assms
  by (auto simp add: I2cWriteA_def I2cReadA_def I2cWriteReadA_def SpiSendDataA_def Let_def)

theorem start_count_out_of_range_rejected_witness:
  "((17 :: uint16_t) = 0 \<or> 17 > I2C_SIZE_HARDWARE_FIFO) \<and>
   ((51 :: uint16_t) = 0 \<or> 51 > SPI_SIZE_SOFTWARE_BUFFER) \<and>
   fst (I2cWriteA 0x50 17 i2c_power_on) = False \<and>
   fst (I2cReadA 0x50 17 i2c_power_on) = False \<and>
   fst (I2cWriteReadA 0x50 17 5 i2c_power_on) = False \<and>
   fst (I2cWriteReadA 0x50 5 17 i2c_power_on) = False \<and>
   fst (SpiSendDataA SPI_SLAVE_1 51 spi_power_on) = False"
proof -
  have h1: "(17 :: uint16_t) = 0 \<or> 17 > I2C_SIZE_HARDWARE_FIFO"
    by (simp add: i2c_consts)
  have h2: "(51 :: uint16_t) = 0 \<or> 51 > SPI_SIZE_SOFTWARE_BUFFER"
    by (simp add: spi_consts)
  show ?thesis
    using h1 h2
      start_count_out_of_range_rejected
        [OF h1 h2, of "0x50" i2c_power_on 5 SPI_SLAVE_1 spi_power_on]
    by simp
qed

subsection \<open>Reset to idle and status query\<close>

text \<open>
  Claim C6, as amended. \<^verbatim>\<open>I2cSetStatusIdleA\<close> fails exactly when the state flag is in
  progress. \<^verbatim>\<open>SpiSetStatusIdleA\<close> succeeds exactly when the state flag is finished: it
  fails when a transfer is in progress and also in every other state that is not
  finished, such as idle. A failing call returns \<open>False\<close> and leaves the state unchanged;
  a call in state finished (either driver) or error (I2C) succeeds, sets the flag to idle
  and returns \<open>True\<close>.
\<close>

theorem reset_to_idle_by_driver:
  "(fst (I2cSetStatusIdleA s) = False \<longleftrightarrow> i2cStatusFlagA s = I2C_STATUS_IN_PROGRESS) \<and>
   (fst (I2cSetStatusIdleA s) = False \<longrightarrow> snd (I2cSetStatusIdleA s) = s) \<and>
   (i2cStatusFlagA s = I2C_STATUS_FINISHED \<or> i2cStatusFlagA s = I2C_STATUS_ERROR \<longrightarrow>
      I2cSetStatusIdleA s = (True, s\<lparr>i2cStatusFlagA := I2C_STATUS_IDLE\<rparr>)) \<and>
   (fst (SpiSetStatusIdleA t) = True \<longleftrightarrow> spiStatusFlagA t = SPI_STATUS_FINISHED) \<and>
   (fst (SpiSetStatusIdleA t) = False \<longrightarrow> snd (SpiSetStatusIdleA t) = t) \<and>
   (spiStatusFlagA t = SPI_STATUS_IN_PROGRESS \<longrightarrow> SpiSetStatusIdleA t = (False, t)) \<and>
   (spiStatusFlagA t = SPI_STATUS_FINISHED \<longrightarrow>
      SpiSetStatusIdleA t = (True, t\<lparr>spiStatusFlagA := SPI_STATUS_IDLE\<rparr>))"
  by (simp add: I2cSetStatusIdleA_def SpiSetStatusIdleA_def spi_consts i2c_consts)

theorem reset_to_idle_by_driver_witness:
  "i2cStatusFlagA (i2c_power_on\<lparr>i2cStatusFlagA := I2C_STATUS_ERROR\<rparr>) = I2C_STATUS_ERROR \<and>
   spiStatusFlagA (spi_power_on\<lparr>spiStatusFlagA := SPI_STATUS_FINISHED\<rparr>)
     = SPI_STATUS_FINISHED \<and>
   I2cSetStatusIdleA (i2c_power_on\<lparr>i2cStatusFlagA := I2C_STATUS_ERROR\<rparr>)
     = (True, i2c_power_on\<lparr>i2cStatusFlagA := I2C_STATUS_IDLE\<rparr>) \<and>
   SpiSetStatusIdleA (spi_power_on\<lparr>spiStatusFlagA := SPI_STATUS_FINISHED\<rparr>)
     = (True, spi_power_on\<lparr>spiStatusFlagA := SPI_STATUS_IDLE\<rparr>)"
  using reset_to_idle_by_driver
    [of "i2c_power_on\<lparr>i2cStatusFlagA := I2C_STATUS_ERROR\<rparr>"
        "spi_power_on\<lparr>spiStatusFlagA := SPI_STATUS_FINISHED\<rparr>"]
  by simp

text \<open>The claim as stated fails for SPI: on the initialised driver, whose state flag is
  idle and not in progress, \<^verbatim>\<open>SpiSetStatusIdleA\<close> returns \<open>False\<close>.\<close>

theorem SpiSetStatusIdleA_fails_when_idle:
  "spiStatusFlagA (SpiInitA 1000000 spi_power_on) = SPI_STATUS_IDLE \<and>
   spiStatusFlagA (SpiInitA 1000000 spi_power_on) \<noteq> SPI_STATUS_IN_PROGRESS \<and>
   SpiSetStatusIdleA (SpiInitA 1000000 spi_power_on)
     = (False, SpiInitA 1000000 spi_power_on)"
  by (simp add: SpiSetStatusIdleA_def SpiInitA_def SpiInitBufferRxA_def SpiInitBufferTxA_def
      spi_power_on_def spi_consts Let_def)

text \<open>
  Claim C7, as amended. \<^verbatim>\<open>I2cGetStatusA\<close> returns in progress whenever the state flag is
  in progress or the stop-pending bit \<^verbatim>\<open>I2CMDR.STP\<close> is set, and the value of the state
  flag otherwise. The stop-pending bit is the only hardware signal it consults: the
  bus-busy bit \<^verbatim>\<open>I2CSTR.BB\<close> has no influence on the result.
\<close>

theorem I2cGetStatusA_stop_pending_only:
  "I2cGetStatusA s =
     (if i2cStatusFlagA s = I2C_STATUS_IN_PROGRESS \<or> I2CMDR_STP s
      then I2C_STATUS_IN_PROGRESS else i2cStatusFlagA s) \<and>
   I2cGetStatusA (s\<lparr>I2CSTR_BB := b\<rparr>) = I2cGetStatusA s"
  by (simp add: I2cGetStatusA_def Let_def)

text \<open>The claim as stated, read with the bus-busy bit as part of the hardware signal,
  fails: with the bus busy, no stop pending and the state flag idle, the query returns
  idle.\<close>

theorem I2cGetStatusA_ignores_bus_busy:
  "I2CSTR_BB (i2c_power_on\<lparr>I2CSTR_BB := True\<rparr>) \<and>
   I2cGetStatusA (i2c_power_on\<lparr>I2CSTR_BB := True\<rparr>) = I2C_STATUS_IDLE \<and>
   I2cGetStatusA (i2c_power_on\<lparr>I2CSTR_BB := True\<rparr>) \<noteq> I2C_STATUS_IN_PROGRESS"
  by (simp add: I2cGetStatusA_def i2c_power_on_def i2c_consts)


subsection \<open>The I2C handler\<close>

lemma I2CDRR_read_fields:
  "i2cStatusFlagA (snd (I2CDRR_read s)) = i2cStatusFlagA s"
  "I2CSTR_NACK (snd (I2CDRR_read s)) = I2CSTR_NACK s"
  "I2CSTR_ARDY (snd (I2CDRR_read s)) = I2CSTR_ARDY s"
  "I2CMDR_STP (snd (I2CDRR_read s)) = I2CMDR_STP s"
  "I2CMDR_STT (snd (I2CDRR_read s)) = I2CMDR_STT s"
  "I2CMDR_TRX (snd (I2CDRR_read s)) = I2CMDR_TRX s"
  "I2CMDR_MST (snd (I2CDRR_read s)) = I2CMDR_MST s"
  "I2CIER_ARDY (snd (I2CDRR_read s)) = I2CIER_ARDY s"
  "I2CCNT (snd (I2CDRR_read s)) = I2CCNT s"
  "i2cBytesToReadAfterRSA (snd (I2CDRR_read s)) = i2cBytesToReadAfterRSA s"
  "i2cBufferWriteA (snd (I2CDRR_read s)) = i2cBufferWriteA s"
  "i2cBufferReadA (snd (I2CDRR_read s)) = i2cBufferReadA s"
  by (simp_all add: I2CDRR_read_def split: list.split)

text \<open>The receive loop writes the read buffer and the receive FIFO only.\<close>

lemma i2c_rx_fold_fields:
  "i2cStatusFlagA (fold i2c_rx_step js s) = i2cStatusFlagA s \<and>
   I2CSTR_NACK (fold i2c_rx_step js s) = I2CSTR_NACK s \<and>
   I2CSTR_ARDY (fold i2c_rx_step js s) = I2CSTR_ARDY s \<and>
   I2CMDR_STP (fold i2c_rx_step js s) = I2CMDR_STP s \<and>
   I2CMDR_STT (fold i2c_rx_step js s) = I2CMDR_STT s \<and>
   I2CMDR_TRX (fold i2c_rx_step js s) = I2CMDR_TRX s \<and>
   I2CMDR_MST (fold i2c_rx_step js s) = I2CMDR_MST s \<and>
   I2CIER_ARDY (fold i2c_rx_step js s) = I2CIER_ARDY s \<and>
   I2CCNT (fold i2c_rx_step js s) = I2CCNT s \<and>
   i2cBytesToReadAfterRSA (fold i2c_rx_step js s) = i2cBytesToReadAfterRSA s \<and>
   i2cBufferWriteA (fold i2c_rx_step js s) = i2cBufferWriteA s \<and>
   length (i2cBufferReadA (fold i2c_rx_step js s)) = length (i2cBufferReadA s)"
  by (induction js arbitrary: s)
     (simp_all add: i2c_rx_step_def I2CDRR_read_fields split_beta)

lemmas i2c_rx_for_fields = i2c_rx_fold_fields [of "[0 ..< unat (I2CCNT s)]" s, folded i2c_rx_for_def] for s

lemma i2c_tx_fold_fields:
  "i2cStatusFlagA (fold i2c_tx_step js s) = i2cStatusFlagA s \<and>
   I2CCNT (fold i2c_tx_step js s) = I2CCNT s \<and>
   i2cBytesToReadAfterRSA (fold i2c_tx_step js s) = i2cBytesToReadAfterRSA s \<and>
   i2cBufferWriteA (fold i2c_tx_step js s) = i2cBufferWriteA s \<and>
   i2cBufferReadA (fold i2c_tx_step js s) = i2cBufferReadA s"
  by (induction js arbitrary: s) (simp_all add: i2c_tx_step_def)

text \<open>Every function of the driver keeps the buffers at their array length and the two
  byte counts within it, so the array accesses of the handler stay in range.\<close>

lemma i2c_inv_preserved:
  assumes "i2c_inv s"
  shows "i2c_inv (snd (I2cWriteA a n s))"
    and "i2c_inv (snd (I2cReadA a n s))"
    and "i2c_inv (snd (I2cWriteReadA a nw nr s))"
    and "i2c_inv (snd (I2cSetStatusIdleA s))"
    and "i2c_inv (I2cISRA s)"
  using assms
  by (simp_all add: i2c_inv_def I2cWriteA_def I2cReadA_def I2cWriteReadA_def I2cSetStatusIdleA_def
      I2cISRA_def I2cISRA_pivot_def I2cISRA_event_def Let_def i2c_tx_for_def
      i2c_tx_fold_fields i2c_rx_for_fields)

lemma i2c_inv_power_on: "i2c_inv i2c_power_on"
  by (simp add: i2c_inv_def i2c_power_on_def i2c_consts)

text \<open>
  Claim C9. The stop-condition branch of \<^verbatim>\<open>I2cISRA\<close> sets the state flag to finished
  only if the flag is in progress on entry: when the stop-condition flag is set, the flag
  after the handler is finished if it was in progress and is unchanged otherwise. So a
  stop condition that fires after a negative acknowledgment has set the flag to error
  leaves it at error; and the handler never produces finished from any flag value other
  than in progress (with a stop condition flagged) or finished itself.
\<close>

theorem I2cISRA_stop_keeps_error:
  assumes "i2c_inv s"
  shows "(I2CSTR_SCD s \<longrightarrow>
            i2cStatusFlagA (I2cISRA s) =
              (if i2cStatusFlagA s = I2C_STATUS_IN_PROGRESS then I2C_STATUS_FINISHED
               else i2cStatusFlagA s)) \<and>
         (I2CSTR_SCD s \<and> i2cStatusFlagA s = I2C_STATUS_ERROR \<longrightarrow>
            i2cStatusFlagA (I2cISRA s) = I2C_STATUS_ERROR) \<and>
         (i2cStatusFlagA (I2cISRA s) = I2C_STATUS_FINISHED \<longrightarrow>
            i2cStatusFlagA s = I2C_STATUS_FINISHED \<or>
            (I2CSTR_SCD s \<and> i2cStatusFlagA s = I2C_STATUS_IN_PROGRESS))"
  by (simp add: I2cISRA_def I2cISRA_pivot_def I2cISRA_event_def Let_def i2c_rx_for_fields
      i2c_consts)

theorem I2cISRA_stop_keeps_error_witness:
  "i2c_inv (i2c_power_on\<lparr>i2cStatusFlagA := I2C_STATUS_ERROR, I2CSTR_SCD := True,
                          I2CCNT := 3\<rparr>) \<and>
   I2CSTR_SCD (i2c_power_on\<lparr>i2cStatusFlagA := I2C_STATUS_ERROR, I2CSTR_SCD := True,
                             I2CCNT := 3\<rparr>) \<and>
   i2cStatusFlagA (I2cISRA (i2c_power_on\<lparr>i2cStatusFlagA := I2C_STATUS_ERROR,
                                           I2CSTR_SCD := True, I2CCNT := 3\<rparr>))
     = I2C_STATUS_ERROR"
proof -
  have h: "i2c_inv (i2c_power_on\<lparr>i2cStatusFlagA := I2C_STATUS_ERROR, I2CSTR_SCD := True,
                                  I2CCNT := 3\<rparr>)"
    by (simp add: i2c_inv_def i2c_power_on_def i2c_consts)
  show ?thesis
    using h I2cISRA_stop_keeps_error [OF h]
    by (simp add: i2c_consts)
qed

text \<open>What the handler does, by the flags it finds on entry. With a negative
  acknowledgment flagged and no stop condition, it issues a stop condition and sets the
  state to error. With a stop condition flagged, the stop branch runs and the
  negative-acknowledgment branch, its \<^verbatim>\<open>else\<close> branch, does not. Without ARDY the
  handler leaves the mode bits, the byte count, the start bit and the ARDY interrupt
  enable as they were. With ARDY flagged and no negative acknowledgment flagged it
  issues the pivot: receiver mode, byte count set to the recorded pending read count,
  repeated start, stop after the bytes, ARDY interrupt source disabled.\<close>

lemma I2cISRA_branches:
  "(I2CSTR_NACK s \<and> \<not> I2CSTR_SCD s \<longrightarrow>
      I2CMDR_STP (I2cISRA s) \<and> i2cStatusFlagA (I2cISRA s) = I2C_STATUS_ERROR) \<and>
   (I2CSTR_NACK s \<and> I2CSTR_SCD s \<longrightarrow>
      i2cStatusFlagA (I2cISRA s) =
        (if i2cStatusFlagA s = I2C_STATUS_IN_PROGRESS then I2C_STATUS_FINISHED
         else i2cStatusFlagA s) \<and>
      I2CMDR_STP (I2cISRA s) = I2CMDR_STP s \<and> I2CSTR_NACK (I2cISRA s)) \<and>
   (\<not> I2CSTR_ARDY s \<longrightarrow>
      I2CMDR_MST (I2cISRA s) = I2CMDR_MST s \<and> I2CMDR_TRX (I2cISRA s) = I2CMDR_TRX s \<and>
      I2CCNT (I2cISRA s) = I2CCNT s \<and> I2CMDR_STT (I2cISRA s) = I2CMDR_STT s \<and>
      I2CIER_ARDY (I2cISRA s) = I2CIER_ARDY s) \<and>
   (I2CSTR_ARDY s \<and> \<not> I2CSTR_NACK s \<longrightarrow>
      \<not> I2CIER_ARDY (I2cISRA s) \<and> I2CMDR_MST (I2cISRA s) \<and> \<not> I2CMDR_TRX (I2cISRA s) \<and>
      I2CCNT (I2cISRA s) = i2cBytesToReadAfterRSA s \<and>
      I2CMDR_STT (I2cISRA s) \<and> I2CMDR_STP (I2cISRA s))"
  by (simp add: I2cISRA_def I2cISRA_pivot_def I2cISRA_event_def Let_def i2c_rx_for_fields)

text \<open>The negative-acknowledgment branch clears the flag before the pivot test reads it.
  So an invocation that finds a negative acknowledgment and ARDY flagged, and no stop
  condition, sets the state to error and then issues the pivot all the same.\<close>

lemma I2cISRA_pivot_after_nack_cleared:
  assumes "I2CSTR_NACK s" and "I2CSTR_ARDY s" and "\<not> I2CSTR_SCD s"
  shows "i2cStatusFlagA (I2cISRA s) = I2C_STATUS_ERROR \<and>
         I2CMDR_STT (I2cISRA s) \<and> \<not> I2CMDR_TRX (I2cISRA s) \<and>
         I2CCNT (I2cISRA s) = i2cBytesToReadAfterRSA s"
  using assms
  by (simp add: I2cISRA_def I2cISRA_pivot_def I2cISRA_event_def)

text \<open>The handler never clears the ARDY status flag, and the pivot test reads that flag,
  not the interrupt enable: an invocation that finds ARDY still flagged after a pivot,
  with no negative acknowledgment, issues the pivot again although the ARDY interrupt
  source is disabled.\<close>

lemma I2cISRA_keeps_ARDY: "I2CSTR_ARDY (I2cISRA s) = I2CSTR_ARDY s"
  by (simp add: I2cISRA_def I2cISRA_pivot_def I2cISRA_event_def Let_def i2c_rx_for_fields)

lemma I2cISRA_pivot_ignores_enable:
  assumes "I2CSTR_ARDY s" and "\<not> I2CSTR_NACK s" and "\<not> I2CIER_ARDY s"
  shows "I2CMDR_STT (I2cISRA s) \<and> \<not> I2CMDR_TRX (I2cISRA s) \<and>
         I2CCNT (I2cISRA s) = i2cBytesToReadAfterRSA s"
  using assms
  by (simp add: I2cISRA_def I2cISRA_pivot_def I2cISRA_event_def Let_def i2c_rx_for_fields)

text \<open>
  Claim C3. Whenever a negative acknowledgment is received, the handler issues a stop
  condition, sets the state to error and does not continue the transfer; the
  write-then-read pivot is issued only when ARDY fires without a concurrent negative
  acknowledgment. \<^verbatim>\<open>I2cISRA\<close> does not do this. Take the write-then-read transfer
  \<^verbatim>\<open>I2cWriteReadA(0x50, 2, 5)\<close>, started on the idle driver, whose start condition has
  been sent (\<^verbatim>\<open>STT\<close> cleared by the hardware, bus busy) and which the slave does not
  acknowledge, so that the handler is entered with the negative acknowledgment and ARDY
  both flagged and no stop condition. The handler sets the state to error and requests
  the stop, and in the same invocation it switches to receiver mode, loads the byte
  count with the pending read count 5 and issues the repeated start.
\<close>

theorem I2cISRA_pivot_despite_nack:
  "I2CSTR_NACK ((snd (I2cWriteReadA 0x50 2 5 i2c_power_on))
       \<lparr>I2CMDR_STT := False, I2CSTR_BB := True, I2CSTR_NACK := True, I2CSTR_ARDY := True\<rparr>) \<and>
   I2CSTR_ARDY ((snd (I2cWriteReadA 0x50 2 5 i2c_power_on))
       \<lparr>I2CMDR_STT := False, I2CSTR_BB := True, I2CSTR_NACK := True, I2CSTR_ARDY := True\<rparr>) \<and>
   \<not> I2CSTR_SCD ((snd (I2cWriteReadA 0x50 2 5 i2c_power_on))
       \<lparr>I2CMDR_STT := False, I2CSTR_BB := True, I2CSTR_NACK := True, I2CSTR_ARDY := True\<rparr>) \<and>
   i2cStatusFlagA ((snd (I2cWriteReadA 0x50 2 5 i2c_power_on))
       \<lparr>I2CMDR_STT := False, I2CSTR_BB := True, I2CSTR_NACK := True, I2CSTR_ARDY := True\<rparr>)
     = I2C_STATUS_IN_PROGRESS \<and>
   I2CMDR_TRX ((snd (I2cWriteReadA 0x50 2 5 i2c_power_on))
       \<lparr>I2CMDR_STT := False, I2CSTR_BB := True, I2CSTR_NACK := True, I2CSTR_ARDY := True\<rparr>) \<and>
   I2CCNT ((snd (I2cWriteReadA 0x50 2 5 i2c_power_on))
       \<lparr>I2CMDR_STT := False, I2CSTR_BB := True, I2CSTR_NACK := True, I2CSTR_ARDY := True\<rparr>)
     = 2 \<and>
   i2cStatusFlagA (I2cISRA ((snd (I2cWriteReadA 0x50 2 5 i2c_power_on))
       \<lparr>I2CMDR_STT := False, I2CSTR_BB := True, I2CSTR_NACK := True, I2CSTR_ARDY := True\<rparr>))
     = I2C_STATUS_ERROR \<and>
   I2CMDR_STP (I2cISRA ((snd (I2cWriteReadA 0x50 2 5 i2c_power_on))
       \<lparr>I2CMDR_STT := False, I2CSTR_BB := True, I2CSTR_NACK := True, I2CSTR_ARDY := True\<rparr>)) \<and>
   I2CMDR_STT (I2cISRA ((snd (I2cWriteReadA 0x50 2 5 i2c_power_on))
       \<lparr>I2CMDR_STT := False, I2CSTR_BB := True, I2CSTR_NACK := True, I2CSTR_ARDY := True\<rparr>)) \<and>
   \<not> I2CMDR_TRX (I2cISRA ((snd (I2cWriteReadA 0x50 2 5 i2c_power_on))
       \<lparr>I2CMDR_STT := False, I2CSTR_BB := True, I2CSTR_NACK := True, I2CSTR_ARDY := True\<rparr>)) \<and>
   I2CCNT (I2cISRA ((snd (I2cWriteReadA 0x50 2 5 i2c_power_on))
       \<lparr>I2CMDR_STT := False, I2CSTR_BB := True, I2CSTR_NACK := True, I2CSTR_ARDY := True\<rparr>))
     = 5"
  by code_simp

text \<open>A second case in which a negative acknowledgment does not lead to the error
  state: entered with a negative acknowledgment and a stop condition both flagged, during
  a transfer in progress, the handler takes the stop branch only; it neither issues a
  stop condition nor sets the state to error, it sets the state to finished.\<close>

lemma I2cISRA_nack_with_stop_not_error:
  "I2CSTR_NACK (i2c_power_on\<lparr>i2cStatusFlagA := I2C_STATUS_IN_PROGRESS, I2CMDR_TRX := True,
                              I2CSTR_SCD := True, I2CSTR_NACK := True\<rparr>) \<and>
   i2cStatusFlagA (I2cISRA (i2c_power_on\<lparr>i2cStatusFlagA := I2C_STATUS_IN_PROGRESS,
       I2CMDR_TRX := True, I2CSTR_SCD := True, I2CSTR_NACK := True\<rparr>)) = I2C_STATUS_FINISHED \<and>
   i2cStatusFlagA (I2cISRA (i2c_power_on\<lparr>i2cStatusFlagA := I2C_STATUS_IN_PROGRESS,
       I2CMDR_TRX := True, I2CSTR_SCD := True, I2CSTR_NACK := True\<rparr>)) \<noteq> I2C_STATUS_ERROR \<and>
   \<not> I2CMDR_STP (I2cISRA (i2c_power_on\<lparr>i2cStatusFlagA := I2C_STATUS_IN_PROGRESS,
       I2CMDR_TRX := True, I2CSTR_SCD := True, I2CSTR_NACK := True\<rparr>))"
  by (simp add: I2cISRA_def I2cISRA_pivot_def I2cISRA_event_def Let_def i2c_power_on_def
      i2c_consts)

subsection \<open>The SPI loops, the handler and runs\<close>

lemma word16_inc: "i < n \<Longrightarrow> unat (i + 1) = Suc (unat i)" for i n :: uint16_t
proof -
  assume "i < n"
  then have "unat i < unat n" by (simp add: word_less_nat_alt)
  moreover have "unat n < 2 ^ 16" using unsigned_less [of n] by simp
  ultimately have "unat i + unat (1 :: uint16_t) < 2 ^ LENGTH(16)" by simp
  then have "unat (i + 1) = unat i + unat (1 :: uint16_t)"
    by (simp only: unat_add_lem)
  then show ?thesis by simp
qed

lemma spi_rx_while_frame:
  "spiBufferTxA (spi_rx_while s) = spiBufferTxA s \<and>
   spiBufferIndexTxA (spi_rx_while s) = spiBufferIndexTxA s \<and>
   spiBytesToTransferA (spi_rx_while s) = spiBytesToTransferA s \<and>
   spiStatusFlagA (spi_rx_while s) = spiStatusFlagA s \<and>
   SPITXFIFO (spi_rx_while s) = SPITXFIFO s \<and>
   SPIFFRX_RXFFIL (spi_rx_while s) = SPIFFRX_RXFFIL s \<and>
   SPIFFRX_RXFFIENA (spi_rx_while s) = SPIFFRX_RXFFIENA s \<and>
   SPIFFRX_RXFFINT (spi_rx_while s) = SPIFFRX_RXFFINT s \<and>
   GPIO58 (spi_rx_while s) = GPIO58 s \<and> GPIO59 (spi_rx_while s) = GPIO59 s \<and>
   PIEACK_ACK6 (spi_rx_while s) = PIEACK_ACK6 s \<and>
   length (spiBufferRxA (spi_rx_while s)) = length (spiBufferRxA s)"
proof (induction s rule: spi_rx_while.induct)
  case (1 s)
  let ?s' = "s\<lparr>spiBufferRxA := (spiBufferRxA s)[unat (spiBufferIndexRxA s) := hd (SPIRXFIFO s)],
              SPIRXFIFO := tl (SPIRXFIFO s),
              spiBufferIndexRxA := spiBufferIndexRxA s + 1\<rparr>"
  show ?case
  proof (cases "spiBufferIndexRxA s < spiBytesToTransferA s \<and> 0 < length (SPIRXFIFO s)")
    case True
    have eq: "spi_rx_while s = spi_rx_while ?s'"
      by (subst spi_rx_while.simps) (use True in auto)
    show ?thesis unfolding eq using "1.IH" [OF True] by simp
  next
    case False
    have eq: "spi_rx_while s = s"
      by (subst spi_rx_while.simps) (use False in auto)
    show ?thesis unfolding eq by simp
  qed
qed

lemma spi_rx_while_main:
  "spiBufferIndexRxA s \<le> spiBytesToTransferA s \<Longrightarrow>
   unat (spiBufferIndexRxA (spi_rx_while s)) = unat (spiBufferIndexRxA s) + spi_rx_count s \<and>
   SPIRXFIFO (spi_rx_while s) = drop (spi_rx_count s) (SPIRXFIFO s) \<and>
   (unat (spiBytesToTransferA s) \<le> length (spiBufferRxA s) \<longrightarrow>
      take (unat (spiBufferIndexRxA (spi_rx_while s))) (spiBufferRxA (spi_rx_while s)) =
        take (unat (spiBufferIndexRxA s)) (spiBufferRxA s) @ take (spi_rx_count s) (SPIRXFIFO s))"
proof (induction s rule: spi_rx_while.induct)
  case (1 s)
  let ?c = "spiBufferIndexRxA s < spiBytesToTransferA s \<and> 0 < length (SPIRXFIFO s)"
  show ?case
  proof (cases ?c)
    case True
    let ?s' = "s\<lparr>spiBufferRxA := (spiBufferRxA s)[unat (spiBufferIndexRxA s) := hd (SPIRXFIFO s)],
                SPIRXFIFO := tl (SPIRXFIFO s),
                spiBufferIndexRxA := spiBufferIndexRxA s + 1\<rparr>"
    from True have lt: "spiBufferIndexRxA s < spiBytesToTransferA s"
      and ne: "SPIRXFIFO s \<noteq> []" by auto
    have eq: "spi_rx_while s = spi_rx_while ?s'"
      by (subst spi_rx_while.simps) (use True in auto)
    have u1: "unat (spiBufferIndexRxA s + 1) = Suc (unat (spiBufferIndexRxA s))"
      using lt by (rule word16_inc)
    have ult: "unat (spiBufferIndexRxA s) < unat (spiBytesToTransferA s)"
      using lt by (simp add: word_less_nat_alt)
    have le': "spiBufferIndexRxA ?s' \<le> spiBytesToTransferA ?s'"
      using lt by (simp add: inc_le)
    have cnt: "spi_rx_count s = Suc (spi_rx_count ?s')"
      using ult ne u1 by (cases "SPIRXFIFO s") (auto simp: spi_rx_count_def)
    note IH = "1.IH" [OF True le']
    obtain w ws where fifo: "SPIRXFIFO s = w # ws" using ne by (cases "SPIRXFIFO s") auto
    have A: "unat (spiBufferIndexRxA (spi_rx_while s)) = unat (spiBufferIndexRxA s) + spi_rx_count s"
      using IH u1 cnt eq by simp
    have B: "SPIRXFIFO (spi_rx_while s) = drop (spi_rx_count s) (SPIRXFIFO s)"
      using IH cnt eq fifo by simp
    have C: "take (unat (spiBufferIndexRxA (spi_rx_while s))) (spiBufferRxA (spi_rx_while s)) =
        take (unat (spiBufferIndexRxA s)) (spiBufferRxA s) @ take (spi_rx_count s) (SPIRXFIFO s)"
      if len: "unat (spiBytesToTransferA s) \<le> length (spiBufferRxA s)"
    proof -
      have il: "unat (spiBufferIndexRxA s) < length (spiBufferRxA s)" using ult len by simp
      have len': "unat (spiBytesToTransferA ?s') \<le> length (spiBufferRxA ?s')"
        using len by simp
      from IH len' have
        "take (unat (spiBufferIndexRxA (spi_rx_while ?s'))) (spiBufferRxA (spi_rx_while ?s')) =
           take (unat (spiBufferIndexRxA ?s')) (spiBufferRxA ?s') @
           take (spi_rx_count ?s') (SPIRXFIFO ?s')"
        by blast
      then have "take (unat (spiBufferIndexRxA (spi_rx_while s))) (spiBufferRxA (spi_rx_while s)) =
            take (Suc (unat (spiBufferIndexRxA s)))
               ((spiBufferRxA s)[unat (spiBufferIndexRxA s) := w]) @ take (spi_rx_count ?s') ws"
        unfolding eq using u1 fifo by simp
      also have "take (Suc (unat (spiBufferIndexRxA s)))
               ((spiBufferRxA s)[unat (spiBufferIndexRxA s) := w]) =
            take (unat (spiBufferIndexRxA s)) (spiBufferRxA s) @ [w]"
        using il by (simp add: take_Suc_conv_app_nth)
      finally show ?thesis using cnt fifo by simp
    qed
    show ?thesis using A B C by blast
  next
    case False
    have eq: "spi_rx_while s = s"
      by (subst spi_rx_while.simps) (use False in auto)
    have "spi_rx_count s = 0"
      using False "1.prems"
      by (auto simp: spi_rx_count_def word_less_nat_alt word_le_nat_alt)
    then show ?thesis using eq by simp
  qed
qed

lemma spi_tx_while_frame:
  "spiBufferTxA (spi_tx_while s) = spiBufferTxA s \<and>
   spiBufferRxA (spi_tx_while s) = spiBufferRxA s \<and>
   spiBufferIndexRxA (spi_tx_while s) = spiBufferIndexRxA s \<and>
   spiBytesToTransferA (spi_tx_while s) = spiBytesToTransferA s \<and>
   spiStatusFlagA (spi_tx_while s) = spiStatusFlagA s \<and>
   SPIRXFIFO (spi_tx_while s) = SPIRXFIFO s \<and>
   SPIFFRX_RXFFIL (spi_tx_while s) = SPIFFRX_RXFFIL s \<and>
   SPIFFRX_RXFFIENA (spi_tx_while s) = SPIFFRX_RXFFIENA s \<and>
   SPIFFRX_RXFFINT (spi_tx_while s) = SPIFFRX_RXFFINT s \<and>
   GPIO58 (spi_tx_while s) = GPIO58 s \<and> GPIO59 (spi_tx_while s) = GPIO59 s \<and>
   PIEACK_ACK6 (spi_tx_while s) = PIEACK_ACK6 s"
proof (induction s rule: spi_tx_while.induct)
  case (1 s)
  let ?s' = "s\<lparr>SPITXFIFO :=
                   SPITXFIFO s @ [push_bit 8 (spiBufferTxA s ! unat (spiBufferIndexTxA s))],
              spiBufferIndexTxA := spiBufferIndexTxA s + 1\<rparr>"
  show ?case
  proof (cases "spiBufferIndexTxA s < spiBytesToTransferA s
                \<and> length (SPITXFIFO s) < unat SPI_SIZE_HARDWARE_FIFO")
    case True
    have eq: "spi_tx_while s = spi_tx_while ?s'"
      by (subst spi_tx_while.simps) (use True in auto)
    show ?thesis unfolding eq using "1.IH" [OF True] by simp
  next
    case False
    have eq: "spi_tx_while s = s"
      by (subst spi_tx_while.simps) (use False in auto)
    show ?thesis unfolding eq by simp
  qed
qed

lemma upt_head: "[i ..< i + Suc k] = i # [Suc i ..< Suc i + k]"
  by (subst upt_rec) simp

lemma spi_tx_while_main:
  "spiBufferIndexTxA s \<le> spiBytesToTransferA s \<Longrightarrow>
   unat (spiBufferIndexTxA (spi_tx_while s)) = unat (spiBufferIndexTxA s) + spi_tx_count s \<and>
   SPITXFIFO (spi_tx_while s) =
     SPITXFIFO s @ map (\<lambda>i. push_bit 8 (spiBufferTxA s ! i))
                       [unat (spiBufferIndexTxA s) ..< unat (spiBufferIndexTxA s) + spi_tx_count s]"
proof (induction s rule: spi_tx_while.induct)
  case (1 s)
  let ?c = "spiBufferIndexTxA s < spiBytesToTransferA s
            \<and> length (SPITXFIFO s) < unat SPI_SIZE_HARDWARE_FIFO"
  let ?s' = "s\<lparr>SPITXFIFO :=
                   SPITXFIFO s @ [push_bit 8 (spiBufferTxA s ! unat (spiBufferIndexTxA s))],
              spiBufferIndexTxA := spiBufferIndexTxA s + 1\<rparr>"
  show ?case
  proof (cases ?c)
    case True
    then have lt: "spiBufferIndexTxA s < spiBytesToTransferA s"
      and room: "length (SPITXFIFO s) < unat SPI_SIZE_HARDWARE_FIFO" by auto
    have eq: "spi_tx_while s = spi_tx_while ?s'"
      by (subst spi_tx_while.simps) (use True in auto)
    have u1: "unat (spiBufferIndexTxA s + 1) = Suc (unat (spiBufferIndexTxA s))"
      using lt by (rule word16_inc)
    have ult: "unat (spiBufferIndexTxA s) < unat (spiBytesToTransferA s)"
      using lt by (simp add: word_less_nat_alt)
    have le': "spiBufferIndexTxA ?s' \<le> spiBytesToTransferA ?s'"
      using lt by (simp add: inc_le)
    have cnt: "spi_tx_count s = Suc (spi_tx_count ?s')"
      using ult room u1 by (auto simp: spi_tx_count_def)
    note IH = "1.IH" [OF True le']
    have A: "unat (spiBufferIndexTxA (spi_tx_while s)) =
             unat (spiBufferIndexTxA s) + spi_tx_count s"
      unfolding eq using IH u1 cnt by simp
    have "SPITXFIFO (spi_tx_while ?s') =
          SPITXFIFO ?s' @ map (\<lambda>i. push_bit 8 (spiBufferTxA ?s' ! i))
             [unat (spiBufferIndexTxA ?s') ..< unat (spiBufferIndexTxA ?s') + spi_tx_count ?s']"
      using IH by blast
    then have B: "SPITXFIFO (spi_tx_while s) =
          SPITXFIFO s @ map (\<lambda>i. push_bit 8 (spiBufferTxA s ! i))
             [unat (spiBufferIndexTxA s) ..< unat (spiBufferIndexTxA s) + spi_tx_count s]"
      unfolding eq cnt upt_head using u1 by simp
    show ?thesis using A B by blast
  next
    case False
    have eq: "spi_tx_while s = s"
      by (subst spi_tx_while.simps) (use False in auto)
    have "spi_tx_count s = 0"
      using False "1.prems"
      by (auto simp: spi_tx_count_def word_less_nat_alt word_le_nat_alt)
    then show ?thesis using eq by simp
  qed
qed

lemma word16_min16: "unat (if (16 :: uint16_t) < d then 16 else d) = min (unat d) 16" for d :: uint16_t
  by (auto simp: word_less_nat_alt min_def)

text \<open>The handler, field by field, in terms of its two loops.\<close>

lemma SpiISRA_fields:
  "spiBytesToTransferA (SpiISRA s) = spiBytesToTransferA s"
  "spiBufferTxA (SpiISRA s) = spiBufferTxA s"
  "spiBufferRxA (SpiISRA s) = spiBufferRxA (spi_rx_while s)"
  "spiBufferIndexRxA (SpiISRA s) = spiBufferIndexRxA (spi_rx_while s)"
  "SPIRXFIFO (SpiISRA s) = SPIRXFIFO (spi_rx_while s)"
  "spiStatusFlagA (SpiISRA s) =
     (if spiBufferIndexRxA (spi_rx_while s) = spiBytesToTransferA s then SPI_STATUS_FINISHED
      else spiStatusFlagA s)"
  "SPIFFRX_RXFFIL (SpiISRA s) =
     (if spiBufferIndexRxA (spi_rx_while s) = spiBytesToTransferA s then SPIFFRX_RXFFIL s
      else if SPI_SIZE_HARDWARE_FIFO < spiBytesToTransferA s - spiBufferIndexRxA (spi_rx_while s)
           then SPI_SIZE_HARDWARE_FIFO
           else spiBytesToTransferA s - spiBufferIndexRxA (spi_rx_while s))"
  "spiBufferIndexTxA (SpiISRA s) =
     (if spiBufferIndexRxA (spi_rx_while s) = spiBytesToTransferA s then spiBufferIndexTxA s
      else spiBufferIndexTxA (spi_tx_while (spi_rx_while s)))"
  "SPITXFIFO (SpiISRA s) =
     (if spiBufferIndexRxA (spi_rx_while s) = spiBytesToTransferA s then SPITXFIFO s
      else SPITXFIFO (spi_tx_while (spi_rx_while s)))"
  "SPIFFRX_RXFFIENA (SpiISRA s) =
     (if spiBufferIndexRxA (spi_rx_while s) = spiBytesToTransferA s then False
      else SPIFFRX_RXFFIENA s)"
  by (simp_all add: SpiISRA_def Let_def spi_rx_while_frame spi_tx_while_frame)

lemma spi_hw_fields:
  "spiBytesToTransferA (spi_hw e s) = spiBytesToTransferA s"
  "spiBufferTxA (spi_hw e s) = spiBufferTxA s"
  "spiBufferRxA (spi_hw e s) = spiBufferRxA s"
  "spiBufferIndexRxA (spi_hw e s) = spiBufferIndexRxA s"
  "spiBufferIndexTxA (spi_hw e s) = spiBufferIndexTxA s"
  "spiStatusFlagA (spi_hw e s) = spiStatusFlagA s"
  "SPIFFRX_RXFFIL (spi_hw e s) = SPIFFRX_RXFFIL s"
  "SPIFFRX_RXFFIENA (spi_hw e s) = SPIFFRX_RXFFIENA s"
  "SPIRXFIFO (spi_hw e s) = fst e"
  "SPITXFIFO (spi_hw e s) = snd e"
  by (simp_all add: spi_hw_def)

lemma spi_rx_count_le:
  "spiBufferIndexRxA s \<le> spiBytesToTransferA s \<Longrightarrow>
   unat (spiBufferIndexRxA s) + spi_rx_count s \<le> unat (spiBytesToTransferA s)"
  by (simp add: spi_rx_count_def word_le_nat_alt)

lemma spi_tx_count_le:
  "spiBufferIndexTxA s \<le> spiBytesToTransferA s \<Longrightarrow>
   unat (spiBufferIndexTxA s) + spi_tx_count s \<le> unat (spiBytesToTransferA s)"
  by (simp add: spi_tx_count_def word_le_nat_alt)

lemma SpiISRA_rxfifo_split:
  assumes "spiBufferIndexRxA s \<le> spiBytesToTransferA s"
  shows "SPIRXFIFO s = spi_rx_taken s @ SPIRXFIFO (SpiISRA s)"
    and "spi_rx_taken s = take (spi_rx_count s) (SPIRXFIFO s)"
proof -
  have d: "SPIRXFIFO (SpiISRA s) = drop (spi_rx_count s) (SPIRXFIFO s)"
    using spi_rx_while_main [OF assms] by (simp add: SpiISRA_fields)
  have k: "spi_rx_count s \<le> length (SPIRXFIFO s)" by (simp add: spi_rx_count_def)
  show t: "spi_rx_taken s = take (spi_rx_count s) (SPIRXFIFO s)"
    using k by (simp add: spi_rx_taken_def d)
  show "SPIRXFIFO s = spi_rx_taken s @ SPIRXFIFO (SpiISRA s)"
    by (simp add: t d)
qed

lemma spi_inv_SpiISRA:
  assumes "spi_inv s"
  shows "spi_inv (SpiISRA s)"
proof -
  from assms have rx: "spiBufferIndexRxA s \<le> spiBytesToTransferA s"
    and tx: "spiBufferIndexTxA s \<le> spiBytesToTransferA s" by (simp_all add: spi_inv_def)
  let ?r = "spi_rx_while s"
  have r1: "unat (spiBufferIndexRxA ?r) \<le> unat (spiBytesToTransferA s)"
    using spi_rx_while_main [OF rx] spi_rx_count_le [OF rx] by simp
  have tx': "spiBufferIndexTxA ?r \<le> spiBytesToTransferA ?r"
    using tx by (simp add: spi_rx_while_frame)
  have t1: "unat (spiBufferIndexTxA (spi_tx_while ?r)) \<le> unat (spiBytesToTransferA s)"
    using spi_tx_while_main [OF tx'] spi_tx_count_le [OF tx'] by (simp add: spi_rx_while_frame)
  show ?thesis
    using assms r1 t1
    by (simp add: spi_inv_def spi_arrays_ok_def SpiISRA_fields spi_rx_while_frame
        word_le_nat_alt)
qed

lemma spi_inv_spi_hw: "spi_inv (spi_hw e s) = spi_inv s"
  by (simp add: spi_inv_def spi_arrays_ok_def spi_hw_def)

lemma SpiSendDataA_started:
  assumes "spi_start_ok n s"
  shows "spiBytesToTransferA (snd (SpiSendDataA slave n s)) = n"
    and "spiBufferIndexRxA (snd (SpiSendDataA slave n s)) = 0"
    and "spiStatusFlagA (snd (SpiSendDataA slave n s)) = SPI_STATUS_IN_PROGRESS"
    and "spiBufferRxA (snd (SpiSendDataA slave n s)) = spiBufferRxA s"
    and "spiBufferTxA (snd (SpiSendDataA slave n s)) = spiBufferTxA s"
    and "SPIRXFIFO (snd (SpiSendDataA slave n s)) = SPIRXFIFO s"
    and "SPIFFRX_RXFFIENA (snd (SpiSendDataA slave n s))"
    and "SPIFFRX_RXFFIL (snd (SpiSendDataA slave n s)) =
           (if SPI_SIZE_HARDWARE_FIFO < n then SPI_SIZE_HARDWARE_FIFO else n)"
  using assms
  by (simp_all add: SpiSendDataA_def spi_start_ok_def Let_def spi_tx_while_frame)

lemma SpiSendDataA_started_tx:
  assumes "spi_start_ok n s"
  shows "unat (spiBufferIndexTxA (snd (SpiSendDataA slave n s))) =
           min (unat n) (unat SPI_SIZE_HARDWARE_FIFO - length (SPITXFIFO s))"
    and "SPITXFIFO (snd (SpiSendDataA slave n s)) =
           SPITXFIFO s @ map (\<lambda>i. push_bit 8 (spiBufferTxA s ! i))
              [0 ..< min (unat n) (unat SPI_SIZE_HARDWARE_FIFO - length (SPITXFIFO s))]"
proof -
  let ?s1 = "if slave = SPI_SLAVE_1 then s\<lparr>GPIO59 := True, GPIO58 := False\<rparr>
             else if slave = SPI_SLAVE_2 then s\<lparr>GPIO58 := True, GPIO59 := False\<rparr> else s"
  let ?s4 = "?s1\<lparr>spiStatusFlagA := SPI_STATUS_IN_PROGRESS, spiBytesToTransferA := n,
                  spiBufferIndexTxA := 0, spiBufferIndexRxA := 0\<rparr>"
  have le: "spiBufferIndexTxA ?s4 \<le> spiBytesToTransferA ?s4" by simp
  have c: "spi_tx_count ?s4 = min (unat n) (unat SPI_SIZE_HARDWARE_FIFO - length (SPITXFIFO s))"
    by (simp add: spi_tx_count_def)
  have f: "SPITXFIFO ?s4 = SPITXFIFO s" "spiBufferTxA ?s4 = spiBufferTxA s"
    "spiBufferIndexTxA ?s4 = 0" by simp_all
  have e1: "spiBufferIndexTxA (snd (SpiSendDataA slave n s)) = spiBufferIndexTxA (spi_tx_while ?s4)"
    and e2: "SPITXFIFO (snd (SpiSendDataA slave n s)) = SPITXFIFO (spi_tx_while ?s4)"
    using assms by (simp_all add: SpiSendDataA_def spi_start_ok_def Let_def spi_tx_while_frame)
  note m = spi_tx_while_main [OF le, unfolded c f]
  show "unat (spiBufferIndexTxA (snd (SpiSendDataA slave n s))) =
           min (unat n) (unat SPI_SIZE_HARDWARE_FIFO - length (SPITXFIFO s))"
    unfolding e1 using m by simp
  show "SPITXFIFO (snd (SpiSendDataA slave n s)) =
           SPITXFIFO s @ map (\<lambda>i. push_bit 8 (spiBufferTxA s ! i))
              [0 ..< min (unat n) (unat SPI_SIZE_HARDWARE_FIFO - length (SPITXFIFO s))]"
    unfolding e2 using m by simp
qed

lemma spi_inv_SpiSendDataA:
  assumes "spi_inv s"
  shows "spi_inv (snd (SpiSendDataA slave n s))"
proof (cases "spi_start_ok n s")
  case True
  have "unat (spiBufferIndexTxA (snd (SpiSendDataA slave n s))) \<le> unat n"
    using SpiSendDataA_started_tx(1) [OF True] by simp
  then show ?thesis
    using assms True SpiSendDataA_started [OF True]
    by (simp add: spi_inv_def spi_arrays_ok_def word_le_nat_alt spi_start_ok_def)
next
  case False
  then have "SpiSendDataA slave n s = (False, s)"
    by (auto simp add: SpiSendDataA_def spi_start_ok_def Let_def)
  then show ?thesis using assms by simp
qed

lemma spi_rx_while_rest:
  "spiBufferIndexRxA s \<le> spiBytesToTransferA s \<Longrightarrow>
   drop (unat (spiBufferIndexRxA (spi_rx_while s))) (spiBufferRxA (spi_rx_while s)) =
   drop (unat (spiBufferIndexRxA (spi_rx_while s))) (spiBufferRxA s)"
proof (induction s rule: spi_rx_while.induct)
  case (1 s)
  let ?c = "spiBufferIndexRxA s < spiBytesToTransferA s \<and> 0 < length (SPIRXFIFO s)"
  let ?s' = "s\<lparr>spiBufferRxA := (spiBufferRxA s)[unat (spiBufferIndexRxA s) := hd (SPIRXFIFO s)],
              SPIRXFIFO := tl (SPIRXFIFO s),
              spiBufferIndexRxA := spiBufferIndexRxA s + 1\<rparr>"
  show ?case
  proof (cases ?c)
    case True
    then have lt: "spiBufferIndexRxA s < spiBytesToTransferA s" by auto
    have eq: "spi_rx_while s = spi_rx_while ?s'"
      by (subst spi_rx_while.simps) (use True in auto)
    have le': "spiBufferIndexRxA ?s' \<le> spiBytesToTransferA ?s'"
      using lt by (simp add: inc_le)
    have u1: "unat (spiBufferIndexRxA s + 1) = Suc (unat (spiBufferIndexRxA s))"
      using lt by (rule word16_inc)
    have "unat (spiBufferIndexRxA (spi_rx_while ?s')) = unat (spiBufferIndexRxA ?s') + spi_rx_count ?s'"
      using spi_rx_while_main [OF le'] by blast
    then have gt: "unat (spiBufferIndexRxA s) < unat (spiBufferIndexRxA (spi_rx_while ?s'))"
      using u1 by simp
    show ?thesis
      unfolding eq using "1.IH" [OF True le'] gt by (simp add: drop_update_cancel)
  next
    case False
    have eq: "spi_rx_while s = s"
      by (subst spi_rx_while.simps) (use False in auto)
    show ?thesis unfolding eq by simp
  qed
qed

text \<open>One handler invocation, for the receive side.\<close>

lemma SpiISRA_rx:
  assumes "spi_inv s"
  shows "unat (spiBufferIndexRxA (SpiISRA s)) = unat (spiBufferIndexRxA s) + length (spi_rx_taken s)"
    and "take (unat (spiBufferIndexRxA (SpiISRA s))) (spiBufferRxA (SpiISRA s)) =
           take (unat (spiBufferIndexRxA s)) (spiBufferRxA s) @ spi_rx_taken s"
    and "drop (unat (spiBufferIndexRxA (SpiISRA s))) (spiBufferRxA (SpiISRA s)) =
           drop (unat (spiBufferIndexRxA (SpiISRA s))) (spiBufferRxA s)"
    and "length (spi_rx_taken s) = spi_rx_count s"
proof -
  from assms have rx: "spiBufferIndexRxA s \<le> spiBytesToTransferA s"
    and len: "unat (spiBytesToTransferA s) \<le> length (spiBufferRxA s)"
    by (simp_all add: spi_inv_def spi_arrays_ok_def word_le_nat_alt)
  have t: "spi_rx_taken s = take (spi_rx_count s) (SPIRXFIFO s)"
    by (rule SpiISRA_rxfifo_split(2) [OF rx])
  show l: "length (spi_rx_taken s) = spi_rx_count s"
    by (simp add: t spi_rx_count_def)
  show "unat (spiBufferIndexRxA (SpiISRA s)) = unat (spiBufferIndexRxA s) + length (spi_rx_taken s)"
    using spi_rx_while_main [OF rx] by (simp add: l SpiISRA_fields)
  have "take (unat (spiBufferIndexRxA (spi_rx_while s))) (spiBufferRxA (spi_rx_while s)) =
        take (unat (spiBufferIndexRxA s)) (spiBufferRxA s) @ take (spi_rx_count s) (SPIRXFIFO s)"
    using spi_rx_while_main [OF rx] len by blast
  then show "take (unat (spiBufferIndexRxA (SpiISRA s))) (spiBufferRxA (SpiISRA s)) =
           take (unat (spiBufferIndexRxA s)) (spiBufferRxA s) @ spi_rx_taken s"
    by (simp only: t SpiISRA_fields)
  show "drop (unat (spiBufferIndexRxA (SpiISRA s))) (spiBufferRxA (SpiISRA s)) =
           drop (unat (spiBufferIndexRxA (SpiISRA s))) (spiBufferRxA s)"
    using spi_rx_while_rest [OF rx] by (simp add: SpiISRA_fields)
qed

lemma spi_run_inv: "spi_inv s \<Longrightarrow> spi_inv (spi_run s es)"
  by (induction es arbitrary: s) (simp_all add: spi_inv_SpiISRA spi_inv_spi_hw)

lemma spi_run_total: "spiBytesToTransferA (spi_run s es) = spiBytesToTransferA s"
  by (induction es arbitrary: s) (simp_all add: SpiISRA_fields spi_hw_fields)

lemma drop_trans_eq:
  "drop i xs = drop i ys \<Longrightarrow> i \<le> j \<Longrightarrow> drop j xs = drop j ys"
  by (metis drop_drop le_add_diff_inverse2)

lemma spi_run_moved:
  "spi_inv s \<Longrightarrow>
   unat (spiBufferIndexRxA (spi_run s es)) = unat (spiBufferIndexRxA s) + length (spi_moved s es) \<and>
   take (unat (spiBufferIndexRxA (spi_run s es))) (spiBufferRxA (spi_run s es)) =
     take (unat (spiBufferIndexRxA s)) (spiBufferRxA s) @ spi_moved s es \<and>
   drop (unat (spiBufferIndexRxA (spi_run s es))) (spiBufferRxA (spi_run s es)) =
     drop (unat (spiBufferIndexRxA (spi_run s es))) (spiBufferRxA s)"
proof (induction es arbitrary: s)
  case Nil
  then show ?case by simp
next
  case (Cons e es)
  let ?t = "spi_hw e s"
  let ?u = "SpiISRA ?t"
  have it: "spi_inv ?t" using Cons.prems by (simp add: spi_inv_spi_hw)
  have iu: "spi_inv ?u" by (rule spi_inv_SpiISRA [OF it])
  note st = SpiISRA_rx [OF it]
  note IH = Cons.IH [OF iu]
  have le: "unat (spiBufferIndexRxA ?u) \<le> unat (spiBufferIndexRxA (spi_run ?u es))"
    using IH by simp
  have i1: "unat (spiBufferIndexRxA (spi_run ?u es)) =
            unat (spiBufferIndexRxA ?u) + length (spi_moved ?u es)"
    and i2: "take (unat (spiBufferIndexRxA (spi_run ?u es))) (spiBufferRxA (spi_run ?u es)) =
             take (unat (spiBufferIndexRxA ?u)) (spiBufferRxA ?u) @ spi_moved ?u es"
    and i3: "drop (unat (spiBufferIndexRxA (spi_run ?u es))) (spiBufferRxA (spi_run ?u es)) =
             drop (unat (spiBufferIndexRxA (spi_run ?u es))) (spiBufferRxA ?u)"
    using IH by blast+
  have s1: "unat (spiBufferIndexRxA ?u) = unat (spiBufferIndexRxA s) + length (spi_rx_taken ?t)"
    using st(1) by (simp only: spi_hw_fields)
  have s2: "take (unat (spiBufferIndexRxA ?u)) (spiBufferRxA ?u) =
            take (unat (spiBufferIndexRxA s)) (spiBufferRxA s) @ spi_rx_taken ?t"
    using st(2) by (simp only: spi_hw_fields)
  have s3: "drop (unat (spiBufferIndexRxA (spi_run ?u es))) (spiBufferRxA ?u) =
        drop (unat (spiBufferIndexRxA (spi_run ?u es))) (spiBufferRxA s)"
    using drop_trans_eq [OF st(3) le] by (simp only: spi_hw_fields)
  have A: "unat (spiBufferIndexRxA (spi_run s (e # es))) =
        unat (spiBufferIndexRxA s) + length (spi_moved s (e # es))"
    by (simp only: spi_run.simps spi_moved.simps i1 s1 length_append add.assoc)
  have B: "take (unat (spiBufferIndexRxA (spi_run s (e # es)))) (spiBufferRxA (spi_run s (e # es))) =
     take (unat (spiBufferIndexRxA s)) (spiBufferRxA s) @ spi_moved s (e # es)"
    by (simp only: spi_run.simps spi_moved.simps i2 s2 append_assoc)
  have C: "drop (unat (spiBufferIndexRxA (spi_run s (e # es)))) (spiBufferRxA (spi_run s (e # es))) =
     drop (unat (spiBufferIndexRxA (spi_run s (e # es)))) (spiBufferRxA s)"
    by (simp only: spi_run.simps i3 s3)
  show ?case using A B C by blast
qed

lemma spi_phase_SpiISRA:
  assumes "spi_inv s" and "spi_phase s"
  shows "spi_phase (SpiISRA (spi_hw e s))"
proof -
  let ?t = "spi_hw e s"
  have it: "spi_inv ?t" using assms(1) by (simp add: spi_inv_spi_hw)
  have iu: "spi_inv (SpiISRA ?t)" by (rule spi_inv_SpiISRA [OF it])
  then have le: "spiBufferIndexRxA (SpiISRA ?t) \<le> spiBytesToTransferA s"
    by (simp add: spi_inv_def SpiISRA_fields spi_hw_fields)
  show ?thesis
  proof (cases "spiBufferIndexRxA (SpiISRA ?t) = spiBytesToTransferA s")
    case True
    then show ?thesis
      by (simp add: spi_phase_def SpiISRA_fields spi_hw_fields)
  next
    case False
    have ne: "spiBufferIndexRxA s \<noteq> spiBytesToTransferA s"
    proof
      assume e: "spiBufferIndexRxA s = spiBytesToTransferA s"
      have "spi_rx_count ?t = 0" by (simp add: spi_rx_count_def spi_hw_fields e)
      then have "unat (spiBufferIndexRxA (SpiISRA ?t)) = unat (spiBytesToTransferA s)"
        using SpiISRA_rx(1,4) [OF it] by (simp add: spi_hw_fields e)
      then show False using False by (simp add: word_unat_eq_iff)
    qed
    then have fl: "spiStatusFlagA s = SPI_STATUS_IN_PROGRESS"
      using assms(2) by (simp add: spi_phase_def)
    have sub: "unat (spiBytesToTransferA s - spiBufferIndexRxA (SpiISRA ?t)) =
               unat (spiBytesToTransferA s) - unat (spiBufferIndexRxA (SpiISRA ?t))"
      using le by (rule unat_sub)
    have r: "SPIFFRX_RXFFIL (SpiISRA ?t) =
          (if 16 < spiBytesToTransferA s - spiBufferIndexRxA (SpiISRA ?t) then 16
           else spiBytesToTransferA s - spiBufferIndexRxA (SpiISRA ?t))"
      using False by (simp add: SpiISRA_fields spi_hw_fields spi_consts)
    have "unat (SPIFFRX_RXFFIL (SpiISRA ?t)) =
            min (unat (spiBytesToTransferA s) - unat (spiBufferIndexRxA (SpiISRA ?t))) 16"
      by (simp only: r word16_min16 sub)
    then show ?thesis
      using False fl by (simp add: spi_phase_def SpiISRA_fields spi_hw_fields spi_consts)
  qed
qed

lemma spi_run_phase: "spi_inv s \<Longrightarrow> spi_phase s \<Longrightarrow> spi_phase (spi_run s es)"
proof (induction es arbitrary: s)
  case Nil
  then show ?case by simp
next
  case (Cons e es)
  have "spi_inv (SpiISRA (spi_hw e s))"
    using Cons.prems(1) by (simp add: spi_inv_SpiISRA spi_inv_spi_hw)
  moreover have "spi_phase (SpiISRA (spi_hw e s))"
    using Cons.prems by (rule spi_phase_SpiISRA)
  ultimately show ?case using Cons.IH by simp
qed

text \<open>Progress: an invocation caused by the interrupt takes at least the threshold, so
  the outstanding count drops by 16 or to 0.\<close>

lemma spi_run_progress:
  "spi_inv s \<Longrightarrow> spi_phase s \<Longrightarrow> spi_triggered s es \<Longrightarrow>
   unat (spiBytesToTransferA s) - unat (spiBufferIndexRxA (spi_run s es))
     \<le> unat (spiBytesToTransferA s) - unat (spiBufferIndexRxA s) - 16 * length es"
proof (induction es arbitrary: s)
  case Nil
  then show ?case by simp
next
  case (Cons e es)
  let ?t = "spi_hw e s"
  let ?u = "SpiISRA ?t"
  have it: "spi_inv ?t" using Cons.prems(1) by (simp add: spi_inv_spi_hw)
  have iu: "spi_inv ?u" by (rule spi_inv_SpiISRA [OF it])
  have pu: "spi_phase ?u" using Cons.prems(1,2) by (rule spi_phase_SpiISRA)
  have tr: "unat (SPIFFRX_RXFFIL s) \<le> length (fst e)" and tu: "spi_triggered ?u es"
    using Cons.prems(3) by simp_all
  have IH: "unat (spiBytesToTransferA s) - unat (spiBufferIndexRxA (spi_run ?u es))
     \<le> unat (spiBytesToTransferA s) - unat (spiBufferIndexRxA ?u) - 16 * length es"
    using Cons.IH [OF iu pu tu] by (simp add: SpiISRA_fields(1) spi_hw_fields)
  have step: "unat (spiBufferIndexRxA ?u) = unat (spiBufferIndexRxA s) + spi_rx_count ?t"
    using SpiISRA_rx(1,4) [OF it] by (simp add: spi_hw_fields)
  have k: "min (unat (spiBytesToTransferA s) - unat (spiBufferIndexRxA s)) 16 \<le> spi_rx_count ?t"
  proof (cases "spiBufferIndexRxA s = spiBytesToTransferA s")
    case True
    then show ?thesis by simp
  next
    case False
    then have "unat (SPIFFRX_RXFFIL s) =
       min (unat (spiBytesToTransferA s) - unat (spiBufferIndexRxA s)) 16"
      using Cons.prems(2) by (simp add: spi_phase_def spi_consts)
    then show ?thesis using tr by (simp add: spi_rx_count_def spi_hw_fields)
  qed
  show ?case using IH step k by (simp add: min_def split: if_splits)
qed

lemma spi_inv_started:
  assumes "spi_arrays_ok s" and "spi_start_ok n s"
  shows "spi_inv (snd (SpiSendDataA slave n s))"
proof -
  have "unat (spiBufferIndexTxA (snd (SpiSendDataA slave n s))) \<le> unat n"
    using SpiSendDataA_started_tx(1) [OF assms(2)] by simp
  then show ?thesis
    using assms SpiSendDataA_started [OF assms(2)]
    by (simp add: spi_inv_def spi_arrays_ok_def word_le_nat_alt spi_start_ok_def)
qed

lemma spi_phase_started:
  assumes "spi_start_ok n s"
  shows "spi_phase (snd (SpiSendDataA slave n s))"
  using assms SpiSendDataA_started [OF assms] word16_min16 [of n]
  by (auto simp add: spi_phase_def spi_start_ok_def spi_consts)

text \<open>One handler invocation, for the transmit side.\<close>

lemma SpiISRA_tx:
  assumes "spi_inv s"
  shows "unat (spiBufferIndexTxA s) \<le> unat (spiBufferIndexTxA (SpiISRA s))"
    and "unat (spiBufferIndexTxA (SpiISRA s)) - unat (spiBufferIndexTxA s) =
         length (SPITXFIFO (SpiISRA s)) - length (SPITXFIFO s)"
    and "length (SPITXFIFO s) \<le> length (SPITXFIFO (SpiISRA s))"
    and "unat (spiBufferIndexTxA (SpiISRA s)) - unat (spiBufferIndexTxA s) \<le>
         unat SPI_SIZE_HARDWARE_FIFO - length (SPITXFIFO s)"
proof -
  let ?r = "spi_rx_while s"
  from assms have tx: "spiBufferIndexTxA ?r \<le> spiBytesToTransferA ?r"
    by (simp add: spi_inv_def spi_rx_while_frame)
  have m1: "unat (spiBufferIndexTxA (spi_tx_while ?r)) = unat (spiBufferIndexTxA s) + spi_tx_count ?r"
    and m2: "length (SPITXFIFO (spi_tx_while ?r)) = length (SPITXFIFO s) + spi_tx_count ?r"
    using spi_tx_while_main [OF tx] by (simp_all add: spi_rx_while_frame)
  have c: "spi_tx_count ?r \<le> unat SPI_SIZE_HARDWARE_FIFO - length (SPITXFIFO s)"
    by (simp add: spi_tx_count_def spi_rx_while_frame)
  show "unat (spiBufferIndexTxA s) \<le> unat (spiBufferIndexTxA (SpiISRA s))"
    using m1 by (simp add: SpiISRA_fields)
  show "unat (spiBufferIndexTxA (SpiISRA s)) - unat (spiBufferIndexTxA s) =
         length (SPITXFIFO (SpiISRA s)) - length (SPITXFIFO s)"
    using m1 m2 by (simp add: SpiISRA_fields)
  show "length (SPITXFIFO s) \<le> length (SPITXFIFO (SpiISRA s))"
    using m2 by (simp add: SpiISRA_fields)
  show "unat (spiBufferIndexTxA (SpiISRA s)) - unat (spiBufferIndexTxA s) \<le>
         unat SPI_SIZE_HARDWARE_FIFO - length (SPITXFIFO s)"
    using m1 c by (simp add: SpiISRA_fields)
qed

lemma spi_exec1_flag:
  assumes "spiStatusFlagA s = SPI_STATUS_IDLE \<or> spiStatusFlagA s = SPI_STATUS_IN_PROGRESS \<or>
           spiStatusFlagA s = SPI_STATUS_FINISHED"
  shows "spiStatusFlagA (spi_exec1 c s) = SPI_STATUS_IDLE \<or>
         spiStatusFlagA (spi_exec1 c s) = SPI_STATUS_IN_PROGRESS \<or>
         spiStatusFlagA (spi_exec1 c s) = SPI_STATUS_FINISHED"
proof (cases c)
  case (CallSpiInitA clock)
  then show ?thesis by (simp add: SpiInitA_def Let_def)
next
  case (CallSpiSendDataA slave n)
  show ?thesis
  proof (cases "spi_start_ok n s")
    case True
    then show ?thesis using CallSpiSendDataA SpiSendDataA_started(3) [OF True] by simp
  next
    case False
    then have "SpiSendDataA slave n s = (False, s)"
      by (auto simp add: SpiSendDataA_def spi_start_ok_def Let_def)
    then show ?thesis using CallSpiSendDataA assms by simp
  qed
next
  case CallSpiISRA
  then show ?thesis using assms by (auto simp add: SpiISRA_fields)
next
  case CallSpiSetStatusIdleA
  then show ?thesis using assms by (auto simp add: SpiSetStatusIdleA_def)
next
  case (HardwareEvent e)
  then show ?thesis using assms by (simp add: spi_hw_fields)
qed

lemma spi_fold_flag:
  "spiStatusFlagA s = SPI_STATUS_IDLE \<or> spiStatusFlagA s = SPI_STATUS_IN_PROGRESS \<or>
   spiStatusFlagA s = SPI_STATUS_FINISHED \<Longrightarrow>
   spiStatusFlagA (fold spi_exec1 cs s) = SPI_STATUS_IDLE \<or>
   spiStatusFlagA (fold spi_exec1 cs s) = SPI_STATUS_IN_PROGRESS \<or>
   spiStatusFlagA (fold spi_exec1 cs s) = SPI_STATUS_FINISHED"
proof (induction cs arbitrary: s)
  case Nil
  then show ?case by simp
next
  case (Cons c cs)
  show ?case using Cons.IH [OF spi_exec1_flag [OF Cons.prems, of c]] by simp
qed

lemma fold_update_length: "length (fold (\<lambda>i b. b[i := v]) js xs) = length xs"
  by (induction js arbitrary: xs) simp_all

lemma spi_inv_SpiInitA: "spi_arrays_ok s \<Longrightarrow> spi_inv (SpiInitA clock s)"
  by (simp add: spi_inv_def spi_arrays_ok_def SpiInitA_def SpiInitBufferRxA_def
      SpiInitBufferTxA_def Let_def fold_update_length)

lemma spi_inv_exec1: "spi_inv s \<Longrightarrow> spi_inv (spi_exec1 c s)"
proof (cases c)
  case (CallSpiInitA clock)
  assume "spi_inv s"
  then have "spi_arrays_ok s" by (simp add: spi_inv_def)
  then show ?thesis using CallSpiInitA by (simp add: spi_inv_SpiInitA)
next
  case (CallSpiSendDataA slave n)
  assume "spi_inv s"
  then show ?thesis using CallSpiSendDataA by (simp add: spi_inv_SpiSendDataA)
next
  case CallSpiISRA
  assume "spi_inv s"
  then show ?thesis using CallSpiISRA by (simp add: spi_inv_SpiISRA)
next
  case CallSpiSetStatusIdleA
  assume "spi_inv s"
  then show ?thesis using CallSpiSetStatusIdleA
    by (simp add: SpiSetStatusIdleA_def spi_inv_def spi_arrays_ok_def)
next
  case (HardwareEvent e)
  assume "spi_inv s"
  then show ?thesis using HardwareEvent by (simp add: spi_inv_spi_hw)
qed

lemma spi_exec_inv:
  assumes "spi_arrays_ok s"
  shows "spi_inv (spi_exec (CallSpiInitA clock # cs) s)"
proof -
  have "spi_inv t \<Longrightarrow> spi_inv (fold spi_exec1 cs t)" for t
    by (induction cs arbitrary: t) (simp_all add: spi_inv_exec1)
  then show ?thesis using spi_inv_SpiInitA [OF assms] by (simp add: spi_exec_def)
qed

subsection \<open>Rejected start calls\<close>

text \<open>
  Claim C4, as amended. A start call whose guard does not hold returns \<open>False\<close> and
  leaves everything unchanged: the result state is the state of the call, with its flag,
  buffers, cursors and registers. The guard of the three I2C start functions is: state
  flag not in progress, bus not busy, no stop pending, and every byte count between 1
  and 16. The guard of \<^verbatim>\<open>SpiSendDataA\<close> is only: state flag not in progress and byte
  count between 1 and 50. \<^verbatim>\<open>SpiSendDataA\<close> does not test whether the bus or the FIFOs
  are free: whenever its guard holds, whatever the FIFOs contain, the call is not
  rejected but starts a transfer (state flag in progress, receive interrupt enabled).
\<close>

theorem start_rejected_unchanged:
  "(\<not> (i2cStatusFlagA s \<noteq> I2C_STATUS_IN_PROGRESS \<and> \<not> I2CSTR_BB s \<and> \<not> I2CMDR_STP s
        \<and> n \<noteq> 0 \<and> n \<le> I2C_SIZE_HARDWARE_FIFO)
      \<longrightarrow> I2cWriteA a n s = (False, s) \<and> I2cReadA a n s = (False, s)) \<and>
   (\<not> (i2cStatusFlagA s \<noteq> I2C_STATUS_IN_PROGRESS \<and> \<not> I2CSTR_BB s \<and> \<not> I2CMDR_STP s
        \<and> nw \<noteq> 0 \<and> nw \<le> I2C_SIZE_HARDWARE_FIFO \<and> nr \<noteq> 0 \<and> nr \<le> I2C_SIZE_HARDWARE_FIFO)
      \<longrightarrow> I2cWriteReadA a nw nr s = (False, s)) \<and>
   (\<not> (spiStatusFlagA t \<noteq> SPI_STATUS_IN_PROGRESS \<and> k \<noteq> 0 \<and> k \<le> SPI_SIZE_SOFTWARE_BUFFER)
      \<longrightarrow> SpiSendDataA sl k t = (False, t)) \<and>
   (spiStatusFlagA u \<noteq> SPI_STATUS_IN_PROGRESS \<and> j \<noteq> 0 \<and> j \<le> SPI_SIZE_SOFTWARE_BUFFER
      \<longrightarrow> spiStatusFlagA (snd (SpiSendDataA sm j u)) = SPI_STATUS_IN_PROGRESS \<and>
          SPIFFRX_RXFFIENA (snd (SpiSendDataA sm j u)) \<and>
          snd (SpiSendDataA sm j u) \<noteq> u)"
proof -
  have rej: "(\<not> (i2cStatusFlagA s \<noteq> I2C_STATUS_IN_PROGRESS \<and> \<not> I2CSTR_BB s \<and> \<not> I2CMDR_STP s
        \<and> n \<noteq> 0 \<and> n \<le> I2C_SIZE_HARDWARE_FIFO)
      \<longrightarrow> I2cWriteA a n s = (False, s) \<and> I2cReadA a n s = (False, s)) \<and>
   (\<not> (i2cStatusFlagA s \<noteq> I2C_STATUS_IN_PROGRESS \<and> \<not> I2CSTR_BB s \<and> \<not> I2CMDR_STP s
        \<and> nw \<noteq> 0 \<and> nw \<le> I2C_SIZE_HARDWARE_FIFO \<and> nr \<noteq> 0 \<and> nr \<le> I2C_SIZE_HARDWARE_FIFO)
      \<longrightarrow> I2cWriteReadA a nw nr s = (False, s)) \<and>
   (\<not> (spiStatusFlagA t \<noteq> SPI_STATUS_IN_PROGRESS \<and> k \<noteq> 0 \<and> k \<le> SPI_SIZE_SOFTWARE_BUFFER)
      \<longrightarrow> SpiSendDataA sl k t = (False, t))"
    by (auto simp add: I2cWriteA_def I2cReadA_def I2cWriteReadA_def SpiSendDataA_def Let_def)
  have acc: "spiStatusFlagA (snd (SpiSendDataA sm j u)) = SPI_STATUS_IN_PROGRESS \<and>
          SPIFFRX_RXFFIENA (snd (SpiSendDataA sm j u)) \<and>
          snd (SpiSendDataA sm j u) \<noteq> u"
    if g: "spiStatusFlagA u \<noteq> SPI_STATUS_IN_PROGRESS \<and> j \<noteq> 0 \<and> j \<le> SPI_SIZE_SOFTWARE_BUFFER"
  proof -
    from g have ok: "spi_start_ok j u" by (simp add: spi_start_ok_def)
    have f: "spiStatusFlagA (snd (SpiSendDataA sm j u)) = SPI_STATUS_IN_PROGRESS"
      by (rule SpiSendDataA_started(3) [OF ok])
    have e: "SPIFFRX_RXFFIENA (snd (SpiSendDataA sm j u))"
      by (rule SpiSendDataA_started(7) [OF ok])
    have "snd (SpiSendDataA sm j u) \<noteq> u"
    proof
      assume "snd (SpiSendDataA sm j u) = u"
      then have "spiStatusFlagA u = SPI_STATUS_IN_PROGRESS" using f by simp
      then show False using g by simp
    qed
    then show ?thesis using f e by simp
  qed
  show ?thesis using rej acc by blast
qed

theorem start_rejected_unchanged_witness:
  "i2cStatusFlagA (i2c_power_on\<lparr>i2cStatusFlagA := I2C_STATUS_IN_PROGRESS\<rparr>)
     = I2C_STATUS_IN_PROGRESS \<and>
   spiStatusFlagA (spi_power_on\<lparr>spiStatusFlagA := SPI_STATUS_IN_PROGRESS\<rparr>)
     = SPI_STATUS_IN_PROGRESS \<and>
   I2cWriteA 0x50 3 (i2c_power_on\<lparr>i2cStatusFlagA := I2C_STATUS_IN_PROGRESS\<rparr>)
     = (False, i2c_power_on\<lparr>i2cStatusFlagA := I2C_STATUS_IN_PROGRESS\<rparr>) \<and>
   I2cReadA 0x50 3 (i2c_power_on\<lparr>i2cStatusFlagA := I2C_STATUS_IN_PROGRESS\<rparr>)
     = (False, i2c_power_on\<lparr>i2cStatusFlagA := I2C_STATUS_IN_PROGRESS\<rparr>) \<and>
   I2cWriteReadA 0x50 2 5 (i2c_power_on\<lparr>i2cStatusFlagA := I2C_STATUS_IN_PROGRESS\<rparr>)
     = (False, i2c_power_on\<lparr>i2cStatusFlagA := I2C_STATUS_IN_PROGRESS\<rparr>) \<and>
   SpiSendDataA SPI_SLAVE_1 3 (spi_power_on\<lparr>spiStatusFlagA := SPI_STATUS_IN_PROGRESS\<rparr>)
     = (False, spi_power_on\<lparr>spiStatusFlagA := SPI_STATUS_IN_PROGRESS\<rparr>) \<and>
   spiStatusFlagA (spi_power_on\<lparr>SPITXFIFO := [0x100]\<rparr>) \<noteq> SPI_STATUS_IN_PROGRESS \<and>
   (3 :: uint16_t) \<noteq> 0 \<and> (3 :: uint16_t) \<le> SPI_SIZE_SOFTWARE_BUFFER \<and>
   spiStatusFlagA (snd (SpiSendDataA SPI_SLAVE_1 3 (spi_power_on\<lparr>SPITXFIFO := [0x100]\<rparr>)))
     = SPI_STATUS_IN_PROGRESS \<and>
   snd (SpiSendDataA SPI_SLAVE_1 3 (spi_power_on\<lparr>SPITXFIFO := [0x100]\<rparr>))
     \<noteq> spi_power_on\<lparr>SPITXFIFO := [0x100]\<rparr>"
proof -
  have g: "spiStatusFlagA (spi_power_on\<lparr>SPITXFIFO := [0x100]\<rparr>) \<noteq> SPI_STATUS_IN_PROGRESS \<and>
     (3 :: uint16_t) \<noteq> 0 \<and> (3 :: uint16_t) \<le> SPI_SIZE_SOFTWARE_BUFFER"
    by (simp add: spi_power_on_def spi_consts)
  show ?thesis
    using g start_rejected_unchanged
      [of "i2c_power_on\<lparr>i2cStatusFlagA := I2C_STATUS_IN_PROGRESS\<rparr>" 3 "0x50" 2 5
          "spi_power_on\<lparr>spiStatusFlagA := SPI_STATUS_IN_PROGRESS\<rparr>" 3 SPI_SLAVE_1
          "spi_power_on\<lparr>SPITXFIFO := [0x100]\<rparr>" 3 SPI_SLAVE_1]
    by simp
qed

text \<open>The claim as stated fails for SPI. On the initialised driver with a word still
  waiting in the transmit FIFO (the bus is not free) and the state flag idle,
  \<^verbatim>\<open>SpiSendDataA(SPI_SLAVE_1, 3)\<close> returns \<open>False\<close> and yet changes the state: the flag
  becomes in progress, the cursors, the threshold and the interrupt enable are
  written, and three more words are appended to the transmit FIFO.\<close>

theorem SpiSendDataA_busy_fifo_not_rejected:
  "SPITXFIFO ((SpiInitA 1000000 spi_power_on)\<lparr>SPITXFIFO := [0x100]\<rparr>) \<noteq> [] \<and>
   spiStatusFlagA ((SpiInitA 1000000 spi_power_on)\<lparr>SPITXFIFO := [0x100]\<rparr>) = SPI_STATUS_IDLE \<and>
   fst (SpiSendDataA SPI_SLAVE_1 3 ((SpiInitA 1000000 spi_power_on)\<lparr>SPITXFIFO := [0x100]\<rparr>))
     = False \<and>
   spiStatusFlagA (snd (SpiSendDataA SPI_SLAVE_1 3
        ((SpiInitA 1000000 spi_power_on)\<lparr>SPITXFIFO := [0x100]\<rparr>))) = SPI_STATUS_IN_PROGRESS \<and>
   spiBytesToTransferA (snd (SpiSendDataA SPI_SLAVE_1 3
        ((SpiInitA 1000000 spi_power_on)\<lparr>SPITXFIFO := [0x100]\<rparr>))) = 3 \<and>
   spiBufferIndexTxA (snd (SpiSendDataA SPI_SLAVE_1 3
        ((SpiInitA 1000000 spi_power_on)\<lparr>SPITXFIFO := [0x100]\<rparr>))) = 3 \<and>
   SPIFFRX_RXFFIL (snd (SpiSendDataA SPI_SLAVE_1 3
        ((SpiInitA 1000000 spi_power_on)\<lparr>SPITXFIFO := [0x100]\<rparr>))) = 3 \<and>
   SPIFFRX_RXFFIENA (snd (SpiSendDataA SPI_SLAVE_1 3
        ((SpiInitA 1000000 spi_power_on)\<lparr>SPITXFIFO := [0x100]\<rparr>))) \<and>
   SPITXFIFO (snd (SpiSendDataA SPI_SLAVE_1 3
        ((SpiInitA 1000000 spi_power_on)\<lparr>SPITXFIFO := [0x100]\<rparr>))) = [0x100, 0, 0, 0] \<and>
   snd (SpiSendDataA SPI_SLAVE_1 3 ((SpiInitA 1000000 spi_power_on)\<lparr>SPITXFIFO := [0x100]\<rparr>))
     \<noteq> (SpiInitA 1000000 spi_power_on)\<lparr>SPITXFIFO := [0x100]\<rparr>"
proof -
  let ?t = "(SpiInitA 1000000 spi_power_on)\<lparr>SPITXFIFO := [0x100]\<rparr>"
  have v: "SPITXFIFO ?t \<noteq> [] \<and> spiStatusFlagA ?t = SPI_STATUS_IDLE \<and>
     fst (SpiSendDataA SPI_SLAVE_1 3 ?t) = False \<and>
     spiStatusFlagA (snd (SpiSendDataA SPI_SLAVE_1 3 ?t)) = SPI_STATUS_IN_PROGRESS \<and>
     spiBytesToTransferA (snd (SpiSendDataA SPI_SLAVE_1 3 ?t)) = 3 \<and>
     spiBufferIndexTxA (snd (SpiSendDataA SPI_SLAVE_1 3 ?t)) = 3 \<and>
     SPIFFRX_RXFFIL (snd (SpiSendDataA SPI_SLAVE_1 3 ?t)) = 3 \<and>
     SPIFFRX_RXFFIENA (snd (SpiSendDataA SPI_SLAVE_1 3 ?t)) \<and>
     SPITXFIFO (snd (SpiSendDataA SPI_SLAVE_1 3 ?t)) = [0x100, 0, 0, 0]"
    by code_simp
  have "snd (SpiSendDataA SPI_SLAVE_1 3 ?t) \<noteq> ?t"
  proof
    assume "snd (SpiSendDataA SPI_SLAVE_1 3 ?t) = ?t"
    then have "spiStatusFlagA ?t = SPI_STATUS_IN_PROGRESS" using v by simp
    then show False using v by (simp add: spi_consts)
  qed
  then show ?thesis using v by blast
qed

subsection \<open>Transfers\<close>

text \<open>
  Claim C2. Let an SPI transfer of \<open>n\<close> bytes, \<open>1 \<le> n \<le> 50\<close> (so \<open>n\<close> may exceed the FIFO
  depth 16), be started by \<^verbatim>\<open>SpiSendDataA\<close> in a state whose state flag is not in progress,
  and let the handler \<^verbatim>\<open>SpiISRA\<close> then be invoked any number of times, with any hardware
  events \<open>es\<close> in between. Then, after the start call and after every invocation:
  \<^item> the words moved out of the receive FIFO so far (\<open>spi_moved\<close>) are at most \<open>n\<close>, and
    their number is the read cursor;
  \<^item> \<^verbatim>\<open>spiBufferRxA\<close> holds exactly these words at positions 0 and up, in the order in
    which they left the FIFO, and its other elements are as they were before the call;
  \<^item> the state is finished exactly when the count has reached \<open>n\<close>, and in progress
    before that;
  \<^item> while bytes are outstanding, the receive threshold is the smaller of the outstanding
    count and the FIFO depth 16 (the handler leaves the threshold alone in the invocation
    that completes the transfer);
  \<^item> if every invocation is caused by the interrupt (on entry the FIFO level has reached
    the threshold), then \<open>(n + 15) div 16\<close> invocations are enough: exactly \<open>n\<close> words
    have been moved and the state is finished.
\<close>

theorem SpiISRA_drain_complete:
  fixes s :: spi_state and n slave :: uint16_t and es :: "spi_event list"
  assumes "spi_arrays_ok s" and "spi_start_ok n s"
  defines "s0 \<equiv> snd (SpiSendDataA slave n s)"
  shows "length (spi_moved s0 es) \<le> unat n \<and>
         unat (spiBufferIndexRxA (spi_run s0 es)) = length (spi_moved s0 es) \<and>
         spiBufferRxA (spi_run s0 es) =
           spi_moved s0 es @ drop (length (spi_moved s0 es)) (spiBufferRxA s) \<and>
         spiStatusFlagA (spi_run s0 es) =
           (if length (spi_moved s0 es) = unat n then SPI_STATUS_FINISHED
            else SPI_STATUS_IN_PROGRESS) \<and>
         (length (spi_moved s0 es) < unat n \<longrightarrow>
            unat (SPIFFRX_RXFFIL (spi_run s0 es)) =
              min (unat n - length (spi_moved s0 es)) (unat SPI_SIZE_HARDWARE_FIFO)) \<and>
         (spi_triggered s0 es \<and> (unat n + 15) div 16 \<le> length es \<longrightarrow>
            length (spi_moved s0 es) = unat n \<and>
            spiStatusFlagA (spi_run s0 es) = SPI_STATUS_FINISHED)"
proof -
  let ?r = "spi_run s0 es"
  let ?m = "spi_moved s0 es"
  have i0: "spi_inv s0" unfolding s0_def using assms(1,2) by (rule spi_inv_started)
  have p0: "spi_phase s0" unfolding s0_def using assms(2) by (rule spi_phase_started)
  have st: "spiBytesToTransferA s0 = n" "spiBufferIndexRxA s0 = 0" "spiBufferRxA s0 = spiBufferRxA s"
    unfolding s0_def using SpiSendDataA_started [OF assms(2)] by simp_all
  have ir: "spi_inv ?r" using i0 by (rule spi_run_inv)
  have pr: "spi_phase ?r" using i0 p0 by (rule spi_run_phase)
  have N: "spiBytesToTransferA ?r = n" by (simp add: spi_run_total st)
  note raw = spi_run_moved [OF i0, of es]
  have idx: "unat (spiBufferIndexRxA ?r) = length ?m"
    using raw by (simp add: st)
  have "take (unat (spiBufferIndexRxA ?r)) (spiBufferRxA ?r) =
        take (unat (spiBufferIndexRxA s0)) (spiBufferRxA s0) @ ?m"
    using raw by blast
  then have tk: "take (unat (spiBufferIndexRxA ?r)) (spiBufferRxA ?r) = ?m"
    by (simp add: st)
  have "drop (unat (spiBufferIndexRxA ?r)) (spiBufferRxA ?r) =
        drop (unat (spiBufferIndexRxA ?r)) (spiBufferRxA s0)"
    using raw by blast
  then have dr: "drop (unat (spiBufferIndexRxA ?r)) (spiBufferRxA ?r) =
             drop (unat (spiBufferIndexRxA ?r)) (spiBufferRxA s)"
    by (simp only: st)
  have le: "length ?m \<le> unat n"
    using ir idx N by (simp add: spi_inv_def word_le_nat_alt)
  have "spiBufferRxA ?r =
        take (unat (spiBufferIndexRxA ?r)) (spiBufferRxA ?r) @
        drop (unat (spiBufferIndexRxA ?r)) (spiBufferRxA ?r)"
    by simp
  also have "\<dots> = ?m @ drop (unat (spiBufferIndexRxA ?r)) (spiBufferRxA s)"
    by (simp only: tk dr)
  finally have buf: "spiBufferRxA ?r = ?m @ drop (length ?m) (spiBufferRxA s)"
    by (simp only: idx)
  have eqN: "spiBufferIndexRxA ?r = n \<longleftrightarrow> length ?m = unat n"
    using idx by (simp add: word_unat_eq_iff)
  have fl: "spiStatusFlagA ?r =
      (if length ?m = unat n then SPI_STATUS_FINISHED else SPI_STATUS_IN_PROGRESS)"
    using pr by (simp add: spi_phase_def N eqN)
  have th: "unat (SPIFFRX_RXFFIL ?r) = min (unat n - length ?m) (unat SPI_SIZE_HARDWARE_FIFO)"
    if "length ?m < unat n"
    using pr that by (simp add: spi_phase_def N eqN idx)
  have live: "length ?m = unat n \<and> spiStatusFlagA ?r = SPI_STATUS_FINISHED"
    if tr: "spi_triggered s0 es" and en: "(unat n + 15) div 16 \<le> length es"
  proof -
    have "unat n - length ?m \<le> unat n - 16 * length es"
      using spi_run_progress [OF i0 p0 tr] by (simp add: st idx)
    moreover have "unat n \<le> 16 * length es" using en by linarith
    ultimately have "length ?m = unat n" using le by simp
    then show ?thesis using fl by simp
  qed
  show ?thesis using le idx buf fl th live by blast
qed

theorem SpiISRA_drain_complete_witness:
  "spi_arrays_ok spi_example \<and> spi_start_ok 20 spi_example \<and>
   spi_triggered (snd (SpiSendDataA SPI_SLAVE_1 20 spi_example)) spi_example_events \<and>
   (unat (20 :: uint16_t) + 15) div 16 \<le> length spi_example_events \<and>
   spi_moved (snd (SpiSendDataA SPI_SLAVE_1 20 spi_example)) spi_example_events =
     map of_nat [100 ..< 120] \<and>
   spiBufferRxA (spi_run (snd (SpiSendDataA SPI_SLAVE_1 20 spi_example)) spi_example_events) =
     map of_nat [100 ..< 120] @ replicate 30 0 \<and>
   spiStatusFlagA (spi_run (snd (SpiSendDataA SPI_SLAVE_1 20 spi_example)) spi_example_events) =
     SPI_STATUS_FINISHED"
proof -
  have h1: "spi_arrays_ok spi_example" by code_simp
  have h2: "spi_start_ok 20 spi_example" by code_simp
  have h3: "spi_triggered (snd (SpiSendDataA SPI_SLAVE_1 20 spi_example)) spi_example_events"
    by code_simp
  have h4: "(unat (20 :: uint16_t) + 15) div 16 \<le> length spi_example_events"
    by (simp add: spi_example_events_def)
  have m: "spi_moved (snd (SpiSendDataA SPI_SLAVE_1 20 spi_example)) spi_example_events =
     map of_nat [100 ..< 120]"
    by code_simp
  have b: "drop 20 (spiBufferRxA spi_example) = replicate 30 0"
    by code_simp
  have l: "length (map of_nat [100 ..< 120] :: uint16_t list) = 20" by simp
  note t = SpiISRA_drain_complete [OF h1 h2, of SPI_SLAVE_1 spi_example_events]
  have f: "spiStatusFlagA (spi_run (snd (SpiSendDataA SPI_SLAVE_1 20 spi_example))
             spi_example_events) = SPI_STATUS_FINISHED"
    using t h3 h4 by blast
  have "spiBufferRxA (spi_run (snd (SpiSendDataA SPI_SLAVE_1 20 spi_example)) spi_example_events) =
        spi_moved (snd (SpiSendDataA SPI_SLAVE_1 20 spi_example)) spi_example_events @
        drop (length (spi_moved (snd (SpiSendDataA SPI_SLAVE_1 20 spi_example)) spi_example_events))
          (spiBufferRxA spi_example)"
    using t by blast
  then have r: "spiBufferRxA (spi_run (snd (SpiSendDataA SPI_SLAVE_1 20 spi_example))
                  spi_example_events) = map of_nat [100 ..< 120] @ replicate 30 0"
    by (simp only: m l b)
  show ?thesis using h1 h2 h3 h4 m r f by blast
qed

text \<open>
  Claim C8. During every SPI transfer, started by an accepted \<^verbatim>\<open>SpiSendDataA\<close> call for
  \<open>n\<close> bytes, the cursor invariant holds after the start call and after every handler
  invocation (\<open>spi_run s0 es\<close> for every \<open>es\<close>, the empty run included): the total
  \<^verbatim>\<open>spiBytesToTransferA\<close> is \<open>n\<close>, and the write cursor \<^verbatim>\<open>spiBufferIndexTxA\<close> and the
  read cursor \<^verbatim>\<open>spiBufferIndexRxA\<close> are each between 0 and that total. The total is the
  same for both directions, so this is the order the specification gives between the
  write cursor and the total of the read side.

  The write cursor advances only while the transmit FIFO has room: in the start call,
  and in every handler invocation (entered in state \<open>t\<close>, after any run and any event), it
  advances by exactly the number of words appended to the transmit FIFO, which is at
  most the room \<open>16 - TXFFST\<close> found on entry. The read cursor advances only while the
  receive FIFO is not empty: the start call leaves it at 0, and a handler invocation
  advances it by exactly the number of words taken out of the receive FIFO, at most the
  level \<open>RXFFST\<close> found on entry.
\<close>

theorem spi_cursor_invariant:
  fixes s :: spi_state and n slave :: uint16_t and es :: "spi_event list" and e :: spi_event
  assumes "spi_arrays_ok s" and "spi_start_ok n s"
  defines "s0 \<equiv> snd (SpiSendDataA slave n s)"
  defines "t \<equiv> spi_hw e (spi_run s0 es)"
  shows "spiBytesToTransferA (spi_run s0 es) = n \<and>
         spiBufferIndexTxA (spi_run s0 es) \<le> n \<and>
         spiBufferIndexRxA (spi_run s0 es) \<le> n \<and>
         spiBufferIndexRxA s0 = 0 \<and>
         unat (spiBufferIndexTxA s0) = length (SPITXFIFO s0) - length (SPITXFIFO s) \<and>
         unat (spiBufferIndexTxA s0) \<le> unat SPI_SIZE_HARDWARE_FIFO - length (SPITXFIFO s) \<and>
         spiBufferIndexTxA t \<le> spiBufferIndexTxA (SpiISRA t) \<and>
         unat (spiBufferIndexTxA (SpiISRA t)) - unat (spiBufferIndexTxA t) =
           length (SPITXFIFO (SpiISRA t)) - length (SPITXFIFO t) \<and>
         unat (spiBufferIndexTxA (SpiISRA t)) - unat (spiBufferIndexTxA t) \<le>
           unat SPI_SIZE_HARDWARE_FIFO - length (SPITXFIFO t) \<and>
         spiBufferIndexRxA t \<le> spiBufferIndexRxA (SpiISRA t) \<and>
         unat (spiBufferIndexRxA (SpiISRA t)) - unat (spiBufferIndexRxA t) =
           length (SPIRXFIFO t) - length (SPIRXFIFO (SpiISRA t)) \<and>
         unat (spiBufferIndexRxA (SpiISRA t)) - unat (spiBufferIndexRxA t) \<le>
           length (SPIRXFIFO t)"
proof -
  have i0: "spi_inv s0" unfolding s0_def using assms(1,2) by (rule spi_inv_started)
  have st: "spiBytesToTransferA s0 = n" "spiBufferIndexRxA s0 = 0"
    unfolding s0_def using SpiSendDataA_started [OF assms(2)] by simp_all
  have ir: "spi_inv (spi_run s0 es)" using i0 by (rule spi_run_inv)
  have N: "spiBytesToTransferA (spi_run s0 es) = n" by (simp add: spi_run_total st)
  have a: "spiBufferIndexTxA (spi_run s0 es) \<le> n" "spiBufferIndexRxA (spi_run s0 es) \<le> n"
    using ir N by (simp_all add: spi_inv_def)
  have b1: "unat (spiBufferIndexTxA s0) = length (SPITXFIFO s0) - length (SPITXFIFO s)"
    and b2: "unat (spiBufferIndexTxA s0) \<le> unat SPI_SIZE_HARDWARE_FIFO - length (SPITXFIFO s)"
    unfolding s0_def using SpiSendDataA_started_tx [OF assms(2), of slave] by simp_all
  have it: "spi_inv t" unfolding t_def using ir by (simp add: spi_inv_spi_hw)
  then have rx: "spiBufferIndexRxA t \<le> spiBytesToTransferA t" by (simp add: spi_inv_def)
  note tx = SpiISRA_tx [OF it]
  have c1: "spiBufferIndexTxA t \<le> spiBufferIndexTxA (SpiISRA t)"
    using tx(1) by (simp add: word_le_nat_alt)
  have k: "spi_rx_count t \<le> length (SPIRXFIFO t)" by (simp add: spi_rx_count_def)
  have r1: "unat (spiBufferIndexRxA (SpiISRA t)) = unat (spiBufferIndexRxA t) + spi_rx_count t"
    using SpiISRA_rx(1,4) [OF it] by simp
  have r2: "length (SPIRXFIFO (SpiISRA t)) = length (SPIRXFIFO t) - spi_rx_count t"
    using spi_rx_while_main [OF rx] by (simp add: SpiISRA_fields)
  have d1: "spiBufferIndexRxA t \<le> spiBufferIndexRxA (SpiISRA t)"
    using r1 by (simp add: word_le_nat_alt)
  have d2: "unat (spiBufferIndexRxA (SpiISRA t)) - unat (spiBufferIndexRxA t) =
           length (SPIRXFIFO t) - length (SPIRXFIFO (SpiISRA t))"
    using r1 r2 k by simp
  have d3: "unat (spiBufferIndexRxA (SpiISRA t)) - unat (spiBufferIndexRxA t) \<le>
           length (SPIRXFIFO t)"
    using r1 k by simp
  show ?thesis using N a st(2) b1 b2 c1 tx(2) tx(4) d1 d2 d3 by blast
qed

theorem spi_cursor_invariant_witness:
  "spi_arrays_ok spi_example \<and> spi_start_ok 20 spi_example \<and>
   spiBytesToTransferA (spi_run (snd (SpiSendDataA SPI_SLAVE_1 20 spi_example))
      spi_example_events) = 20 \<and>
   spiBufferIndexTxA (spi_run (snd (SpiSendDataA SPI_SLAVE_1 20 spi_example))
      spi_example_events) \<le> 20 \<and>
   spiBufferIndexRxA (spi_run (snd (SpiSendDataA SPI_SLAVE_1 20 spi_example))
      spi_example_events) \<le> 20 \<and>
   unat (spiBufferIndexTxA (snd (SpiSendDataA SPI_SLAVE_1 20 spi_example))) \<le>
      unat SPI_SIZE_HARDWARE_FIFO - length (SPITXFIFO spi_example)"
proof -
  have h1: "spi_arrays_ok spi_example" by code_simp
  have h2: "spi_start_ok 20 spi_example" by code_simp
  note t = spi_cursor_invariant [OF h1 h2, of SPI_SLAVE_1 spi_example_events "([], [])"]
  show ?thesis using h1 h2 t by blast
qed

text \<open>Between the two cursors themselves there is no fixed order in the claim: after
  the start call the write cursor is ahead of the read cursor.\<close>

lemma spi_write_cursor_ahead_after_start:
  "spiBufferIndexTxA (snd (SpiSendDataA SPI_SLAVE_1 20 spi_example)) = 16 \<and>
   spiBufferIndexRxA (snd (SpiSendDataA SPI_SLAVE_1 20 spi_example)) = 0"
  by code_simp

text \<open>
  Claim C10. In every state the SPI driver reaches by a sequence of \<^verbatim>\<open>SpiInitA\<close>,
  \<^verbatim>\<open>SpiSendDataA\<close>, \<^verbatim>\<open>SpiISRA\<close> and \<^verbatim>\<open>SpiSetStatusIdleA\<close> calls (and hardware events)
  that begins with \<^verbatim>\<open>SpiInitA\<close>, whatever the state before, the status flag is idle, in
  progress or finished: there is no error value. The only change the handler makes to
  the flag is to set it to finished.
\<close>

theorem spi_flag_three_states:
  "(spiStatusFlagA (spi_exec (CallSpiInitA clock # cs) s) = SPI_STATUS_IDLE \<or>
    spiStatusFlagA (spi_exec (CallSpiInitA clock # cs) s) = SPI_STATUS_IN_PROGRESS \<or>
    spiStatusFlagA (spi_exec (CallSpiInitA clock # cs) s) = SPI_STATUS_FINISHED) \<and>
   (spiStatusFlagA (SpiISRA t) = spiStatusFlagA t \<or>
    spiStatusFlagA (SpiISRA t) = SPI_STATUS_FINISHED)"
proof -
  have "spiStatusFlagA (SpiInitA clock s) = SPI_STATUS_IDLE"
    by (simp add: SpiInitA_def Let_def)
  then have "spiStatusFlagA (fold spi_exec1 cs (SpiInitA clock s)) = SPI_STATUS_IDLE \<or>
     spiStatusFlagA (fold spi_exec1 cs (SpiInitA clock s)) = SPI_STATUS_IN_PROGRESS \<or>
     spiStatusFlagA (fold spi_exec1 cs (SpiInitA clock s)) = SPI_STATUS_FINISHED"
    by (intro spi_fold_flag) simp
  moreover have "spiStatusFlagA (SpiISRA t) = spiStatusFlagA t \<or>
    spiStatusFlagA (SpiISRA t) = SPI_STATUS_FINISHED"
    by (simp add: SpiISRA_fields)
  ultimately show ?thesis by (simp add: spi_exec_def)
qed

theorem spi_flag_three_states_witness:
  "spiStatusFlagA
     (spi_exec [CallSpiInitA 1000000, CallSpiSendDataA SPI_SLAVE_1 3,
                HardwareEvent ([7, 8, 9], []), CallSpiISRA] spi_power_on)
     = SPI_STATUS_FINISHED"
proof -
  have a: "spiStatusFlagA
     (spi_exec [CallSpiInitA 1000000, CallSpiSendDataA SPI_SLAVE_1 3,
                HardwareEvent ([7, 8, 9], []), CallSpiISRA] spi_power_on)
     \<noteq> SPI_STATUS_IDLE"
    by code_simp
  have b: "spiStatusFlagA
     (spi_exec [CallSpiInitA 1000000, CallSpiSendDataA SPI_SLAVE_1 3,
                HardwareEvent ([7, 8, 9], []), CallSpiISRA] spi_power_on)
     \<noteq> SPI_STATUS_IN_PROGRESS"
    by code_simp
  show ?thesis
    using a b spi_flag_three_states
      [of 1000000 "[CallSpiSendDataA SPI_SLAVE_1 3, HardwareEvent ([7, 8, 9], []), CallSpiISRA]"
          spi_power_on spi_power_on]
    by blast
qed


end
